theory Spec2Isabelle
  imports Complex_Main "HOL-Library.Sublist" "HOL-Library.AList"
begin

section \<open>Code knowledge graph and hybrid retrieval: a shallow embedding\<close>

text \<open>
  The definitions below follow the Python sources of the retrieval engine
  (\<^verbatim>\<open>daneel/data/graph_rag\<close>, \<^verbatim>\<open>daneel/data/postgres/models.py\<close> and
  \<^verbatim>\<open>serving.py\<close>). Python exceptions are values of \<open>py_error\<close>; a function that can
  raise returns \<open>py_error + 'a\<close>. Python strings are modelled as \<open>string\<close>, with
  \<open>length\<close> standing for \<^verbatim>\<open>len\<close>.
\<close>

datatype py_error =
    ValueError
  | KeyError
  | IndexError
  | TypeError
  | OverflowError
  | FileNotFoundError
  | RetriesExceeded
  | BackendFailure
  | SqlError

subsection \<open>Embedding adapter: batching (\<^verbatim>\<open>Code.embed\<close>, hybrid\_search.py)\<close>

text \<open>
  \<^verbatim>\<open>batches = [[]]
  for t in texts:
      batches[-1].append(t)
      if sum(len(x) for x in batches[-1]) > 20000:
          batches.append([])\<close>
  The loop state is the list of batches; it is never empty, so \<open>batches[-1]\<close> is
  \<open>last\<close>.
\<close>

fun pack_batches :: "string list list \<Rightarrow> string list \<Rightarrow> string list list" where
  "pack_batches batches [] = batches"
| "pack_batches batches (t # ts) =
     (let appended = butlast batches @ [last batches @ [t]] in
      pack_batches
        (if sum_list (map length (last appended)) > 20000 then appended @ [[]] else appended)
        ts)"

definition embed_batches :: "string list \<Rightarrow> string list list" where
  "embed_batches texts = pack_batches [[]] texts"

subsection \<open>Embedding adapter: one batch (\<^verbatim>\<open>Code._embed\<close>)\<close>

text \<open>
  The embedding service is outside the repository. It is a parameter: a reply for the
  attempt number, the task type and the list of texts sent. Embedding values are of an
  arbitrary type \<open>'e\<close> (lists of floats in the source; they are never computed with).
\<close>

datatype 'e backend_reply =
    Embeddings "'e list"
  | ResourceExhausted
  | InternalServerError
  | OtherFailure

type_synonym 'e backend = "nat \<Rightarrow> string \<Rightarrow> string list \<Rightarrow> 'e backend_reply"

text \<open>\<^verbatim>\<open>nonempty_idxs = [i for i in range(len(batch)) if batch[i]]\<close>\<close>

definition nonempty_idxs :: "string list \<Rightarrow> nat list" where
  "nonempty_idxs batch = filter (\<lambda>i. batch ! i \<noteq> []) [0..<length batch]"

text \<open>
  \<^verbatim>\<open>for i in range(len(batch)):
      if i in nonempty_idxs: out.append(embeddings.pop(0))
      else: out.append(None)\<close>
  \<open>pop(0)\<close> on an empty list raises IndexError.
\<close>

fun fill_out :: "nat list \<Rightarrow> nat list \<Rightarrow> 'e list \<Rightarrow> py_error + 'e option list" where
  "fill_out idxs [] embeddings = Inr []"
| "fill_out idxs (i # rest) embeddings =
     (if i \<in> set idxs then
        (case embeddings of
           [] \<Rightarrow> Inl IndexError
         | e # embeddings' \<Rightarrow>
             (case fill_out idxs rest embeddings' of
                Inl err \<Rightarrow> Inl err
              | Inr out \<Rightarrow> Inr (Some e # out)))
      else
        (case fill_out idxs rest embeddings of
           Inl err \<Rightarrow> Inl err
         | Inr out \<Rightarrow> Inr (None # out)))"

text \<open>
  The retry loop \<^verbatim>\<open>for retry in range(1, 4)\<close>: a reply with embeddings ends it, the
  two transient errors go to the next attempt, any other exception propagates, and
  running out of attempts raises \<^verbatim>\<open>Exception("retries exceeded")\<close>. The first
  component of the result logs every request sent to the service.
\<close>

fun embed_attempts ::
  "'e backend \<Rightarrow> string \<Rightarrow> string list \<Rightarrow> nat list \<Rightarrow> string list list \<times> (py_error + 'e option list)"
where
  "embed_attempts backend input_type batch [] = ([], Inl RetriesExceeded)"
| "embed_attempts backend input_type batch (retry # retries) =
     (let request = map (\<lambda>i. batch ! i) (nonempty_idxs batch) in
      case backend retry input_type request of
        Embeddings embeddings \<Rightarrow>
          ([request], fill_out (nonempty_idxs batch) [0..<length batch] embeddings)
      | ResourceExhausted \<Rightarrow>
          (let (sent, r) = embed_attempts backend input_type batch retries in (request # sent, r))
      | InternalServerError \<Rightarrow>
          (let (sent, r) = embed_attempts backend input_type batch retries in (request # sent, r))
      | OtherFailure \<Rightarrow> ([request], Inl BackendFailure))"

definition embed_one ::
  "'e backend \<Rightarrow> string \<Rightarrow> string list \<Rightarrow> string list list \<times> (py_error + 'e option list)"
where
  "embed_one backend input_type batch =
     (if nonempty_idxs batch = [] then ([], Inr (replicate (length batch) None))
      else embed_attempts backend input_type batch [1, 2, 3])"

subsection \<open>Ordered gathering (\<^verbatim>\<open>ordered_as_completed\<close>)\<close>

text \<open>
  An asynchronous generator is modelled by what it yields and the exception that ends
  it, if any.
\<close>

type_synonym 'a stream = "'a list \<times> py_error option"

text \<open>
  The futures are numbered by their position in \<open>awaitables\<close>. The order in which the
  event loop completes them is a parameter: the list of the sets \<open>done\<close> that the
  successive calls of \<^verbatim>\<open>asyncio.wait(pending, return_when=FIRST_COMPLETED)\<close> return.
  When that list is exhausted while futures remain, the wait never returns: \<open>None\<close>.

  \<open>pop_done\<close> is the inner loop
  \<^verbatim>\<open>while futures and futures[0].done(): yield await futures.pop(0)\<close>;
  awaiting a future that holds an exception raises it and ends the generator.
\<close>

fun pop_done ::
  "nat list \<Rightarrow> (nat \<times> (py_error + 'a)) list \<Rightarrow> 'a stream \<times> (nat \<times> (py_error + 'a)) list"
where
  "pop_done finished [] = (([], None), [])"
| "pop_done finished ((i, r) # futures) =
     (if i \<in> set finished then
        (case r of
           Inl err \<Rightarrow> (([], Some err), futures)
         | Inr v \<Rightarrow>
             (let ((ys, err), rest) = pop_done finished futures in ((v # ys, err), rest)))
      else (([], None), (i, r) # futures))"

fun gather_loop ::
  "nat list list \<Rightarrow> nat list \<Rightarrow> (nat \<times> (py_error + 'a)) list \<Rightarrow> 'a stream option"
where
  "gather_loop schedule finished [] = Some ([], None)"
| "gather_loop [] finished (f # futures) = None"
| "gather_loop (done # schedule) finished (f # futures) =
     (let finished' = finished @ done in
      if fst f \<in> set done then
        (case snd f of
           Inl err \<Rightarrow> Some ([], Some err)
         | Inr v \<Rightarrow>
             (let ((ys, err), rest) = pop_done finished' futures in
              case err of
                Some e \<Rightarrow> Some (v # ys, Some e)
              | None \<Rightarrow>
                  (case gather_loop schedule finished' rest of
                     None \<Rightarrow> None
                   | Some (zs, e) \<Rightarrow> Some (v # ys @ zs, e))))
      else gather_loop schedule finished' (f # futures))"

definition ordered_as_completed ::
  "nat list list \<Rightarrow> (py_error + 'a) list \<Rightarrow> 'a stream option"
where
  "ordered_as_completed schedule awaitables =
     gather_loop schedule [] (zip [0..<length awaitables] awaitables)"

subsection \<open>Embedding adapter: the stream (\<^verbatim>\<open>Code.embed\<close>)\<close>

text \<open>
  \<open>enabled\<close> is the module constant \<^verbatim>\<open>ENABLE_EMBEDDING\<close>. The result is the log of
  requests sent to the service and the stream of yielded values; \<open>None\<close> when the
  gathering never returns.
\<close>

definition embed ::
  "bool \<Rightarrow> 'e backend \<Rightarrow> nat list list \<Rightarrow> string list \<Rightarrow> string \<Rightarrow>
   (string list list \<times> 'e option stream) option"
where
  "embed enabled backend schedule texts input_type =
     (let batches = embed_batches texts in
      if enabled then
        (let runs = map (embed_one backend input_type) batches in
         case ordered_as_completed schedule (map snd runs) of
           None \<Rightarrow> None
         | Some (outs, err) \<Rightarrow> Some (concat (map fst runs), (concat outs, err)))
      else Some ([], (map (\<lambda>t. None) texts, None)))"

text \<open>
  Reference notions for the claims about the adapter. \<open>stream_of\<close> is the stream that
  awaiting the results one after the other, in the order given, produces. A service
  \<open>serves\<close> the embedding function \<open>emb\<close> when, for every request, one of the three
  attempts answers with the embeddings of the texts sent, in order, and every earlier
  attempt fails with one of the two retried errors.
\<close>

fun stream_of :: "(py_error + 'a) list \<Rightarrow> 'a stream" where
  "stream_of [] = ([], None)"
| "stream_of (Inl err # rs) = ([], Some err)"
| "stream_of (Inr v # rs) = (let (ys, err) = stream_of rs in (v # ys, err))"

definition transient :: "'e backend_reply \<Rightarrow> bool" where
  "transient r = (r = ResourceExhausted \<or> r = InternalServerError)"

definition serves :: "'e backend \<Rightarrow> string \<Rightarrow> (string \<Rightarrow> 'e) \<Rightarrow> bool" where
  "serves backend input_type emb =
     (\<forall>request. \<exists>a\<in>{1, 2, 3}.
        backend a input_type request = Embeddings (map emb request) \<and>
        (\<forall>b. 1 \<le> b \<and> b < a \<longrightarrow> transient (backend b input_type request)))"

definition expected :: "(string \<Rightarrow> 'e) \<Rightarrow> string \<Rightarrow> 'e option" where
  "expected emb t = (if t = [] then None else Some (emb t))"

subsection \<open>Graph data model (graph.py)\<close>

datatype KGNodeType = FILE | CLASS | FUNCTION

text \<open>
  \<^verbatim>\<open>KGNode\<close>; the fields \<^verbatim>\<open>type\<close> and \<^verbatim>\<open>id\<close> are \<open>kg_type\<close> and \<open>kg_id\<close>.
\<close>

record KGNode =
  kg_type :: KGNodeType
  symbol :: string
  file_name :: string
  line :: int
  end_line :: "int option"
  db_id :: "int option"
  kg_id :: "int option"

text \<open>
  An edge payload is a Python dict. The key \<^verbatim>\<open>type\<close> is set wherever the sources
  build an edge; the other keys may be missing (the ingest endpoint builds forward edges
  with \<^verbatim>\<open>type\<close> alone), so they are optional here.
\<close>

record KGEdge =
  edge_type :: string
  reverse :: "bool option"
  src_file :: "string option"
  target_file :: "string option"
  idx :: "nat option"

text \<open>
  The directed multigraph of the graph library: node payloads by node index, in index
  order, and the edges (source index, target index, payload) in edge order.
\<close>

record digraph =
  graph_nodes :: "(nat \<times> KGNode) list"
  graph_edges :: "(nat \<times> nat \<times> KGEdge) list"

text \<open>
  \<^verbatim>\<open>get_node_data(i)\<close> raises IndexError when no node has index \<open>i\<close>.
\<close>

definition get_node_data :: "digraph \<Rightarrow> nat \<Rightarrow> py_error + KGNode" where
  "get_node_data g i = (case map_of (graph_nodes g) i of None \<Rightarrow> Inl IndexError | Some n \<Rightarrow> Inr n)"

text \<open>\<^verbatim>\<open>get_nodes(ids) = [self.digraph.get_node_data(id) for id in ids]\<close>\<close>

fun get_nodes :: "digraph \<Rightarrow> nat list \<Rightarrow> py_error + KGNode list" where
  "get_nodes g [] = Inr []"
| "get_nodes g (i # ids) =
     (case get_node_data g i of
        Inl err \<Rightarrow> Inl err
      | Inr n \<Rightarrow> (case get_nodes g ids of Inl err \<Rightarrow> Inl err | Inr ns \<Rightarrow> Inr (n # ns)))"

text \<open>
  \<^verbatim>\<open>remove_node(i)\<close> removes the node and every edge incident to it; an index that
  is not in the graph is ignored.
\<close>

definition remove_node :: "digraph \<Rightarrow> nat \<Rightarrow> digraph" where
  "remove_node g i =
     g\<lparr>graph_nodes := filter (\<lambda>(j, n). j \<noteq> i) (graph_nodes g),
       graph_edges := filter (\<lambda>(s, t, e). s \<noteq> i \<and> t \<noteq> i) (graph_edges g)\<rparr>"

subsection \<open>Search index rows (hybrid\_search.py)\<close>

text \<open>
  A row of table \<^verbatim>\<open>code\<close> (class \<^verbatim>\<open>Code\<close>); \<open>'e\<close> is the type of embeddings.
\<close>

record 'e Code =
  code_id :: "int option"
  code_file :: "string option"
  code_text :: "string option"
  code_node_id :: "int option"
  code_graph_id :: string
  code_embedding :: "'e option"

subsection \<open>Retrieval: the PageRank weight function (\<^verbatim>\<open>weight_fn_wrapper\<close>)\<close>

text \<open>\<^verbatim>\<open>str.split(sep)\<close> for a one-character separator.\<close>

fun py_split :: "char \<Rightarrow> string \<Rightarrow> string list" where
  "py_split sep [] = [[]]"
| "py_split sep (c # cs) =
     (if c = sep then [] # py_split sep cs
      else (case py_split sep cs of
              [] \<Rightarrow> [[c]]
            | w # ws \<Rightarrow> (c # w) # ws))"

text \<open>
  \<^verbatim>\<open>"test" in target_file.split("_")[0]\<close>; Python's \<^verbatim>\<open>in\<close> on strings is the
  contiguous-substring test \<open>sublist\<close>.
\<close>

definition is_test_target :: "string \<Rightarrow> py_error + bool" where
  "is_test_target tf =
     (case py_split CHR ''_'' tf of
        [] \<Rightarrow> Inl IndexError
      | first # _ \<Rightarrow> Inr (sublist ''test'' first))"

text \<open>
  \<^verbatim>\<open>weight_fn(e)\<close> of \<^verbatim>\<open>weight_fn_wrapper(only_tests, reverse)\<close>. A missing dict
  key raises KeyError; \<^verbatim>\<open>reverse ^ e["reverse"]\<close> is exclusive or.
\<close>

definition weight_fn :: "bool \<Rightarrow> bool \<Rightarrow> KGEdge \<Rightarrow> py_error + real" where
  "weight_fn only_tests rev_pass e =
     (case target_file e of
        None \<Rightarrow> Inl KeyError
      | Some tf \<Rightarrow>
          (case is_test_target tf of
             Inl err \<Rightarrow> Inl err
           | Inr True \<Rightarrow> (if only_tests then Inr 1.0 else Inr 0.10)
           | Inr False \<Rightarrow>
               (if only_tests then Inr 0.01
                else (case reverse e of
                        None \<Rightarrow> Inl KeyError
                      | Some r \<Rightarrow>
                          (if (rev_pass \<noteq> r) \<and>
                              edge_type e \<in> {''call'', ''class_ref'', ''test_coverage''}
                           then Inr 1.0
                           else Inr 0.01)))))"

subsection \<open>Retrieval: ranking (\<^verbatim>\<open>GraphRag.search\<close>, after the hybrid search)\<close>

text \<open>
  Python dicts keep insertion order: an association list, with \<open>AList.update\<close> for
  \<^verbatim>\<open>d[k] = v\<close> (in place for a key that is present, appended otherwise).

  \<^verbatim>\<open>personalization = {hit.node_id: score for hit, score in search_hits}\<close>
\<close>

definition personalization_of :: "('e Code \<times> real) list \<Rightarrow> (int option \<times> real) list" where
  "personalization_of search_hits =
     fold (\<lambda>(hit, score). AList.update (code_node_id hit) score) search_hits []"

text \<open>\<^verbatim>\<open>max(values)\<close>: ValueError on an empty collection.\<close>

fun py_max :: "real list \<Rightarrow> py_error + real" where
  "py_max [] = Inl ValueError"
| "py_max (x # xs) = Inr (fold max xs x)"

text \<open>
  \<^verbatim>\<open>if seed_nodes:
      personalization.update(
          {node.id: max(personalization.values()) for node in seed_nodes})\<close>
  The comprehension is evaluated before the update, so every seed gets the maximum of
  the search scores.
\<close>

definition seed_bias ::
  "(int option \<times> real) list \<Rightarrow> KGNode list \<Rightarrow> py_error + (int option \<times> real) list"
where
  "seed_bias personalization seed_nodes =
     (if seed_nodes = [] then Inr personalization
      else (case py_max (map snd personalization) of
              Inl err \<Rightarrow> Inl err
            | Inr m \<Rightarrow>
                Inr (fold (\<lambda>(k, v). AList.update k v)
                       (fold (\<lambda>node. AList.update (kg_id node) m) seed_nodes [])
                       personalization)))"

text \<open>
  PageRank is the graph library's. It is a parameter: given the graph, the weight
  function and the personalization it returns the ranks by node index, fails to converge,
  or raises. The binding takes the personalization keys as node indices: a key \<open>None\<close> is
  a TypeError, a negative key an OverflowError.
\<close>

datatype pagerank_result =
    Ranks "(nat \<times> real) list"
  | FailedToConverge
  | Raised py_error

type_synonym pagerank =
  "digraph \<Rightarrow> (KGEdge \<Rightarrow> py_error + real) \<Rightarrow> (nat \<times> real) list \<Rightarrow> pagerank_result"

fun index_keys :: "(int option \<times> real) list \<Rightarrow> py_error + (nat \<times> real) list" where
  "index_keys [] = Inr []"
| "index_keys ((None, v) # kvs) = Inl TypeError"
| "index_keys ((Some k, v) # kvs) =
     (if k < 0 then Inl OverflowError
      else (case index_keys kvs of Inl err \<Rightarrow> Inl err | Inr out \<Rightarrow> Inr ((nat k, v) # out)))"

text \<open>
  \<^verbatim>\<open>merged = collections.defaultdict(float)
  for node, weight in pr.items(): merged[node] += weight\<close>
\<close>

definition accumulate :: "(nat \<times> real) list \<Rightarrow> (nat \<times> real) list \<Rightarrow> (nat \<times> real) list" where
  "accumulate pr merged =
     fold (\<lambda>(node, weight) m.
             AList.update node ((case map_of m node of None \<Rightarrow> 0 | Some w \<Rightarrow> w) + weight) m)
          pr merged"

text \<open>
  The two passes inside \<^verbatim>\<open>try\<close>; \<^verbatim>\<open>except rx.FailedToConverge: merged = personalization\<close>.
\<close>

definition merged_ranks ::
  "pagerank \<Rightarrow> digraph \<Rightarrow> bool \<Rightarrow> (nat \<times> real) list \<Rightarrow> py_error + (nat \<times> real) list"
where
  "merged_ranks pagerank g only_tests personalization =
     (case pagerank g (weight_fn only_tests False) personalization of
        Raised err \<Rightarrow> Inl err
      | FailedToConverge \<Rightarrow> Inr personalization
      | Ranks pr \<Rightarrow>
          (case pagerank g (weight_fn only_tests True) personalization of
             Raised err \<Rightarrow> Inl err
           | FailedToConverge \<Rightarrow> Inr personalization
           | Ranks pr' \<Rightarrow> Inr (accumulate pr' (accumulate pr []))))"

text \<open>
  \<^verbatim>\<open>sorted(merged.items(), key=lambda x: x[1], reverse=True)\<close>: Python's sort is
  stable, and with \<^verbatim>\<open>reverse=True\<close> it still keeps the original order of items with
  equal keys (the list is reversed, sorted and reversed again).
\<close>

definition sorted_reverse :: "(nat \<times> real) list \<Rightarrow> (nat \<times> real) list" where
  "sorted_reverse items = rev (sort_key snd (rev items))"

text \<open>The slice \<^verbatim>\<open>xs[:k]\<close>; a negative \<open>k\<close> counts from the end.\<close>

definition slice_to :: "int \<Rightarrow> 'a list \<Rightarrow> 'a list" where
  "slice_to k xs = (if 0 \<le> k then take (nat k) xs else take (length xs - nat (- k)) xs)"

text \<open>
  \<open>search_rank\<close> is \<^verbatim>\<open>GraphRag.search\<close> from the line that builds \<^verbatim>\<open>personalization\<close>
  to the end: \<open>g\<close> is the graph after the overlay nodes have been inserted, \<open>search_hits\<close>
  the result of \<^verbatim>\<open>Code.search\<close>, and \<open>overlay_files\<close> maps a path to its content or to
  \<open>None\<close> (deleted in the overlay).
\<close>

definition search_rank ::
  "pagerank \<Rightarrow> digraph \<Rightarrow> int \<Rightarrow> ('e Code \<times> real) list \<Rightarrow> KGNode list \<Rightarrow>
   (string \<rightharpoonup> string option) \<Rightarrow> bool \<Rightarrow> py_error + (KGNode \<times> real) list"
where
  "search_rank pagerank g graph_top search_hits seed_nodes overlay_files only_tests =
     (case seed_bias (personalization_of search_hits) seed_nodes of
        Inl err \<Rightarrow> Inl err
      | Inr personalization \<Rightarrow>
          (case index_keys personalization of
             Inl err \<Rightarrow> Inl err
           | Inr indexed \<Rightarrow>
               (case merged_ranks pagerank g only_tests indexed of
                  Inl err \<Rightarrow> Inl err
                | Inr merged \<Rightarrow>
                    (let out_ids = slice_to graph_top (sorted_reverse merged) in
                     case get_nodes g (map fst out_ids) of
                       Inl err \<Rightarrow> Inl err
                     | Inr ns \<Rightarrow>
                         Inr (filter (\<lambda>(n, weight). overlay_files (file_name n) \<noteq> Some None)
                                (zip ns (map snd out_ids)))))))"

subsection \<open>Python integers as text (\<^verbatim>\<open>str\<close>, \<^verbatim>\<open>int\<close>)\<close>

text \<open>
  \<^verbatim>\<open>str(n)\<close> for an integer: decimal digits, most significant first, with a leading
  minus sign for a negative number.
\<close>

definition digit_char :: "nat \<Rightarrow> char" where
  "digit_char d = char_of (48 + d)"

fun nat_digits :: "nat \<Rightarrow> string" where
  "nat_digits n = (if n < 10 then [digit_char n] else nat_digits (n div 10) @ [digit_char (n mod 10)])"

declare nat_digits.simps [simp del]

definition py_str :: "int \<Rightarrow> string" where
  "py_str i = (if i < 0 then CHR ''-'' # nat_digits (nat (- i)) else nat_digits (nat i))"

text \<open>
  \<^verbatim>\<open>int(s)\<close> for a string: an optional sign and at least one decimal digit; anything
  else is a ValueError. (Python also accepts surrounding white space and single
  underscores between digits; \<^verbatim>\<open>str\<close> produces neither.)
\<close>

definition is_digit :: "char \<Rightarrow> bool" where
  "is_digit c = (48 \<le> (of_char c :: nat) \<and> (of_char c :: nat) \<le> 57)"

definition digits_value :: "string \<Rightarrow> nat" where
  "digits_value s = foldl (\<lambda>acc c. 10 * acc + ((of_char c :: nat) - 48)) 0 s"

definition parse_digits :: "string \<Rightarrow> py_error + nat" where
  "parse_digits s = (if s \<noteq> [] \<and> list_all is_digit s then Inr (digits_value s) else Inl ValueError)"

fun py_int :: "string \<Rightarrow> py_error + int" where
  "py_int [] = Inl ValueError"
| "py_int (c # cs) =
     (if c = CHR ''-'' then
        (case parse_digits cs of Inl err \<Rightarrow> Inl err | Inr n \<Rightarrow> Inr (- int n))
      else if c = CHR ''+'' then
        (case parse_digits cs of Inl err \<Rightarrow> Inl err | Inr n \<Rightarrow> Inr (int n))
      else
        (case parse_digits (c # cs) of Inl err \<Rightarrow> Inl err | Inr n \<Rightarrow> Inr (int n)))"

subsection \<open>Hybrid search (\<^verbatim>\<open>Code.search\<close>) and its caller\<close>

text \<open>
  The scoring functions are the database's. \<open>scores\<close> is the content of the common
  table expression \<^verbatim>\<open>scores\<close> (row id and score) that either scorer returns. The rest
  of the statement is
  \<^verbatim>\<open>SELECT code.*, score FROM code JOIN scores ON code.id = scores.id
  WHERE code.graphid = '{graph_id}' ORDER BY score DESC LIMIT {top}\<close>.
  The order among equal scores is the database's choice; here it is the order of the
  join. A negative \<^verbatim>\<open>LIMIT\<close> is an error of the database.
\<close>

definition join_scores :: "'e Code list \<Rightarrow> (int \<times> real) list \<Rightarrow> ('e Code \<times> real) list" where
  "join_scores table scores =
     concat (map (\<lambda>c. map (\<lambda>(i, score). (c, score)) (filter (\<lambda>(i, score). code_id c = Some i) scores)) table)"

definition order_by_score_desc :: "('a \<times> real) list \<Rightarrow> ('a \<times> real) list" where
  "order_by_score_desc rows = rev (sort_key snd (rev rows))"

text \<open>
  The parameter \<^verbatim>\<open>top: int = 20\<close> is \<open>top_arg\<close>: \<open>None\<close> when the caller does not supply
  it.
\<close>

definition Code_search ::
  "'e Code list \<Rightarrow> (int \<times> real) list \<Rightarrow> string \<Rightarrow> int option \<Rightarrow> py_error + ('e Code \<times> real) list"
where
  "Code_search table scores graph_id top_arg =
     (let top_n = (case top_arg of None \<Rightarrow> 20 | Some t \<Rightarrow> t) in
      if top_n < 0 then Inl SqlError
      else Inr (take (nat top_n)
                  (order_by_score_desc
                     (filter (\<lambda>(c, score). code_graph_id c = graph_id) (join_scores table scores)))))"

text \<open>
  The fields of \<^verbatim>\<open>GraphRag\<close> with their defaults, and the call
  \<^verbatim>\<open>Code.search(self._graph.graphid, query, top=self.search_top, ...)\<close> of
  \<^verbatim>\<open>GraphRag.search\<close>; \<^verbatim>\<open>graphid\<close> is \<^verbatim>\<open>f"{self.feature_id}"\<close>.
\<close>

record GraphRag =
  feature_id :: int
  graph_top :: int
  search_top :: int
  rerank_top :: int
  bm25_weight :: real
  vector_weight :: real

definition GraphRag_defaults :: "int \<Rightarrow> GraphRag" where
  "GraphRag_defaults fid =
     \<lparr>feature_id = fid, graph_top = 50, search_top = 150, rerank_top = 100,
      bm25_weight = 0.5, vector_weight = 0.5\<rparr>"

definition graphid :: "GraphRag \<Rightarrow> string" where
  "graphid rag = py_str (feature_id rag)"

definition GraphRag_search_hits ::
  "GraphRag \<Rightarrow> 'e Code list \<Rightarrow> (int \<times> real) list \<Rightarrow> py_error + ('e Code \<times> real) list"
where
  "GraphRag_search_hits rag table scores = Code_search table scores (graphid rag) (Some (search_top rag))"

subsection \<open>The table \<^verbatim>\<open>code\<close> (\<^verbatim>\<open>DBModel\<close>, models.py)\<close>

text \<open>
  The table is its rows and the next value of the \<^verbatim>\<open>SERIAL\<close> column \<^verbatim>\<open>id\<close>.
  Commit and rollback of the cursor are not modelled: the functions give the state the
  statements leave behind.
\<close>

record 'e code_table =
  table_rows :: "'e Code list"
  next_serial :: int

text \<open>
  \<^verbatim>\<open>insert_many(items)\<close>: nothing for an empty list; otherwise one \<^verbatim>\<open>INSERT\<close> of all
  columns but \<^verbatim>\<open>id\<close>, which the database generates.
\<close>

definition insert_many :: "'e Code list \<Rightarrow> 'e code_table \<Rightarrow> 'e code_table" where
  "insert_many items db =
     (if items = [] then db
      else db\<lparr>table_rows :=
                table_rows db @
                map (\<lambda>(k, item). item\<lparr>code_id := Some (next_serial db + int k)\<rparr>)
                    (zip [0..<length items] items),
              next_serial := next_serial db + int (length items)\<rparr>)"

text \<open>
  \<^verbatim>\<open>delete_many(ids)\<close>: nothing for an empty list; otherwise
  \<^verbatim>\<open>DELETE FROM code WHERE id IN (...)\<close>. A Python \<open>None\<close> among the ids is an SQL
  \<^verbatim>\<open>NULL\<close>, which no row's \<^verbatim>\<open>id\<close> equals.
\<close>

definition delete_many :: "int option list \<Rightarrow> 'e code_table \<Rightarrow> 'e code_table" where
  "delete_many ids db =
     (if ids = [] then db
      else db\<lparr>table_rows :=
                filter (\<lambda>r. \<not> (code_id r \<noteq> None \<and> code_id r \<in> set ids)) (table_rows db)\<rparr>)"

subsection \<open>Bulk index actions (\<^verbatim>\<open>Code.bulk_action\<close>)\<close>

datatype SearchIndexActionType = CREATE | DELETE

record 'e SearchIndexAction =
  action_type :: SearchIndexActionType
  action_file :: "string option"
  action_content :: "string option"
  action_embedding :: "'e option"
  action_id :: "int option"
  action_node_id :: "int option"

text \<open>
  \<^verbatim>\<open>async_chunk(iterator, chunk_size)\<close>: the loop over the items with its buffer, giving
  the chunks yielded and the buffer left. When the iterator ends with an exception the
  buffer is lost; otherwise a non-empty buffer is the last chunk.
\<close>

fun chunk_loop :: "nat \<Rightarrow> 'a list \<Rightarrow> 'a list \<Rightarrow> 'a list list \<times> 'a list" where
  "chunk_loop chunk_size buffer [] = ([], buffer)"
| "chunk_loop chunk_size buffer (item # items) =
     (let buffer' = buffer @ [item] in
      if length buffer' = chunk_size then
        (let (chunks, left) = chunk_loop chunk_size [] items in (buffer' # chunks, left))
      else chunk_loop chunk_size buffer' items)"

definition async_chunk :: "'a stream \<Rightarrow> nat \<Rightarrow> 'a list stream" where
  "async_chunk iterator chunk_size =
     (let (chunks, left) = chunk_loop chunk_size [] (fst iterator) in
      case snd iterator of
        Some err \<Rightarrow> (chunks, Some err)
      | None \<Rightarrow> (if left \<noteq> [] then chunks @ [left] else chunks, None))"

text \<open>
  The body of \<^verbatim>\<open>async for embed_batch in async_chunk(...)\<close>: the state is the counter
  \<open>i\<close>, the table and the progress values reported so far.
  \<^verbatim>\<open>items_batch = creates[i : i + len(embed_batch)]\<close>, one row per pair of
  \<^verbatim>\<open>zip(items_batch, embed_batch)\<close>, then \<^verbatim>\<open>progress_cb(i / len(creates))\<close>.
\<close>

fun insert_chunks ::
  "string \<Rightarrow> 'e SearchIndexAction list \<Rightarrow> 'e option list list \<Rightarrow> nat \<Rightarrow> 'e code_table \<Rightarrow>
   'e code_table \<times> real list"
where
  "insert_chunks graph_id creates [] i db = (db, [])"
| "insert_chunks graph_id creates (embed_batch # later) i db =
     (let items_batch = take (length embed_batch) (drop i creates);
          i' = i + length embed_batch;
          codes = map (\<lambda>(item, emb).
                    \<lparr>code_id = None, code_file = action_file item, code_text = action_content item,
                     code_node_id = action_node_id item, code_graph_id = graph_id,
                     code_embedding = emb\<rparr>)
                  (zip items_batch embed_batch);
          db' = insert_many codes db;
          (db'', progress) = insert_chunks graph_id creates later i' db'
      in (db'', (real i' / real (length creates)) # progress))"

text \<open>
  \<open>bulk_action\<close> returns the table, the values passed to \<open>progress_cb\<close> in order and the
  exception raised, if any; \<open>None\<close> when the gathering of the embeddings never returns.
  A content that is \<open>None\<close> makes \<^verbatim>\<open>len\<close> raise TypeError while the batches are formed,
  before anything is inserted. The deletion reads \<^verbatim>\<open>x.id\<close> of every delete action.
\<close>

definition bulk_action ::
  "bool \<Rightarrow> 'e backend \<Rightarrow> nat list list \<Rightarrow> string \<Rightarrow> 'e SearchIndexAction list \<Rightarrow> 'e code_table \<Rightarrow>
   ('e code_table \<times> real list \<times> py_error option) option"
where
  "bulk_action enabled backend schedule graph_id all_actions db =
     (let creates = filter (\<lambda>a. action_type a = CREATE) all_actions;
          deletes = filter (\<lambda>a. action_type a = DELETE) all_actions
      in
      if creates \<noteq> [] then
        (if None \<in> set (map action_content creates) then Some (db, [], Some TypeError)
         else
           (case embed enabled backend schedule (map (\<lambda>a. the (action_content a)) creates)
                   ''RETRIEVAL_DOCUMENT'' of
              None \<Rightarrow> None
            | Some (sent, embeddings) \<Rightarrow>
                (let (chunks, err) = async_chunk embeddings 100;
                     (db', progress) = insert_chunks graph_id creates chunks 0 db
                 in case err of
                      Some e \<Rightarrow> Some (db', progress, Some e)
                    | None \<Rightarrow> Some (delete_many (map action_id deletes) db', progress, None))))
      else Some (delete_many (map action_id deletes) db, [], None))"

subsection \<open>Graph mutation (\<^verbatim>\<open>add_node\<close>, \<^verbatim>\<open>bulk_insert\<close>, \<^verbatim>\<open>invalidate\<close>)\<close>

text \<open>
  \<^verbatim>\<open>CodeKnowledgeGraph.add_node\<close> as \<^verbatim>\<open>bulk_insert\<close> calls it (without \<^verbatim>\<open>db_id\<close> and
  \<^verbatim>\<open>node_id\<close>): the graph library chooses the index of the new node, and the node's id
  is that index. Which index the library chooses is the parameter \<open>fresh\<close>.
\<close>

definition add_node ::
  "(digraph \<Rightarrow> nat) \<Rightarrow> digraph \<Rightarrow> KGNodeType \<Rightarrow> string \<Rightarrow> string \<Rightarrow> int \<Rightarrow> int option \<Rightarrow>
   digraph \<times> KGNode"
where
  "add_node fresh g node_type node_symbol node_file node_line node_end =
     (let node_index = fresh g;
          node = \<lparr>kg_type = node_type, symbol = node_symbol, file_name = node_file,
                  line = node_line, end_line = node_end,
                  db_id = None, kg_id = Some (int node_index)\<rparr>
      in (g\<lparr>graph_nodes := insort_key fst (node_index, node) (graph_nodes g)\<rparr>, node))"

text \<open>The first loop of \<^verbatim>\<open>bulk_insert\<close>: \<^verbatim>\<open>nodes[i] = self._graph.add_node(...)\<close>.\<close>

fun add_nodes :: "(digraph \<Rightarrow> nat) \<Rightarrow> digraph \<Rightarrow> KGNode list \<Rightarrow> digraph \<times> KGNode list" where
  "add_nodes fresh g [] = (g, [])"
| "add_nodes fresh g (node # nodes) =
     (let (g', node') = add_node fresh g (kg_type node) (symbol node) (file_name node)
                          (line node) (end_line node);
          (g'', nodes') = add_nodes fresh g' nodes
      in (g'', node' # nodes'))"

definition bulk_insert ::
  "bool \<Rightarrow> 'e backend \<Rightarrow> nat list list \<Rightarrow> (digraph \<Rightarrow> nat) \<Rightarrow> string \<Rightarrow>
   digraph \<Rightarrow> 'e code_table \<Rightarrow> KGNode list \<Rightarrow> string list \<Rightarrow>
   (digraph \<times> 'e code_table \<times> real list \<times> py_error option) option"
where
  "bulk_insert enabled backend schedule fresh graph_id g db nodes contents =
     (let (g', nodes') = add_nodes fresh g nodes;
          actions = map (\<lambda>(node, content).
                      \<lparr>action_type = CREATE, action_file = Some (file_name node),
                       action_content = Some content, action_embedding = None,
                       action_id = None, action_node_id = kg_id node\<rparr>)
                    (zip nodes' contents)
      in case bulk_action enabled backend schedule graph_id actions db of
           None \<Rightarrow> None
         | Some (db', progress, err) \<Rightarrow> Some (g', db', progress, err))"

text \<open>
  \<^verbatim>\<open>GraphRag.invalidate\<close>. \<open>ids_by_file\<close> is built once, from the nodes present at the
  start. The graph library takes a node index: \<open>None\<close> as id raises TypeError, a
  negative number OverflowError.
  For each file the nodes are removed and \<open>bulk_action\<close> is called with one delete
  action per node id, built as \<^verbatim>\<open>SearchIndexAction(type=DELETE, node_id=node_id)\<close>.
\<close>

definition ids_by_file :: "digraph \<Rightarrow> string \<Rightarrow> int option list" where
  "ids_by_file g fname = map kg_id (filter (\<lambda>n. file_name n = fname) (map snd (graph_nodes g)))"

fun remove_nodes :: "digraph \<Rightarrow> int option list \<Rightarrow> digraph \<times> py_error option" where
  "remove_nodes g [] = (g, None)"
| "remove_nodes g (None # ids) = (g, Some TypeError)"
| "remove_nodes g (Some k # ids) =
     (if k < 0 then (g, Some OverflowError) else remove_nodes (remove_node g (nat k)) ids)"

fun invalidate_loop ::
  "bool \<Rightarrow> 'e backend \<Rightarrow> nat list list \<Rightarrow> string \<Rightarrow> (string \<Rightarrow> int option list) \<Rightarrow>
   digraph \<Rightarrow> 'e code_table \<Rightarrow> string list \<Rightarrow> (digraph \<times> 'e code_table \<times> py_error option) option"
where
  "invalidate_loop enabled backend schedule graph_id by_file g db [] = Some (g, db, None)"
| "invalidate_loop enabled backend schedule graph_id by_file g db (fname # file_names) =
     (let node_ids = by_file fname in
      case remove_nodes g node_ids of
        (g', Some err) \<Rightarrow> Some (g', db, Some err)
      | (g', None) \<Rightarrow>
          (case bulk_action enabled backend schedule graph_id
                  (map (\<lambda>node_id.
                          \<lparr>action_type = DELETE, action_file = None, action_content = None,
                           action_embedding = None, action_id = None,
                           action_node_id = node_id\<rparr>) node_ids) db of
             None \<Rightarrow> None
           | Some (db', progress, Some err) \<Rightarrow> Some (g', db', Some err)
           | Some (db', progress, None) \<Rightarrow>
               invalidate_loop enabled backend schedule graph_id by_file g' db' file_names))"

definition invalidate ::
  "bool \<Rightarrow> 'e backend \<Rightarrow> nat list list \<Rightarrow> string \<Rightarrow> digraph \<Rightarrow> 'e code_table \<Rightarrow> string list \<Rightarrow>
   (digraph \<times> 'e code_table \<times> py_error option) option"
where
  "invalidate enabled backend schedule graph_id g db file_names =
     invalidate_loop enabled backend schedule graph_id (ids_by_file g) g db file_names"

subsection \<open>Ingest progress events (\<^verbatim>\<open>BismuthAPI._api_codegraph\<close>, serving.py)\<close>

datatype IngestProgressStatus = IN_PROGRESS | COMPLETED | ERROR

datatype IngestStep = ANALYZE_CODE | BUILD_GRAPH

record IngestProgressEvent =
  step :: IngestStep
  status :: IngestProgressStatus
  progress :: "real option"

text \<open>
  The events the endpoint streams. Every value \<open>progress_cb\<close> receives goes through the
  queue into an \<open>IN_PROGRESS\<close> event; when the insertion has raised, awaiting the task
  raises, the handler logs the exception and the stream ends; otherwise the
  \<open>COMPLETED\<close> event follows, built with \<^verbatim>\<open>progress=100.0\<close>. The steps after it yield
  no event.
\<close>

definition api_codegraph_events ::
  "bool \<Rightarrow> 'e backend \<Rightarrow> nat list list \<Rightarrow> (digraph \<Rightarrow> nat) \<Rightarrow> string \<Rightarrow>
   digraph \<Rightarrow> 'e code_table \<Rightarrow> KGNode list \<Rightarrow> string list \<Rightarrow> IngestProgressEvent list option"
where
  "api_codegraph_events enabled backend schedule fresh graph_id g db nodes contents =
     (case bulk_insert enabled backend schedule fresh graph_id g db nodes contents of
        None \<Rightarrow> None
      | Some (g', db', values, err) \<Rightarrow>
          Some (map (\<lambda>p. \<lparr>step = BUILD_GRAPH, status = IN_PROGRESS, progress = Some p\<rparr>) values @
                (case err of
                   Some e \<Rightarrow> []
                 | None \<Rightarrow> [\<lparr>step = BUILD_GRAPH, status = COMPLETED, progress = Some 100.0\<rparr>])))"

subsection \<open>Persistence (\<^verbatim>\<open>KGNode.str_dict\<close>, \<^verbatim>\<open>from_str_dict\<close>, \<^verbatim>\<open>save\<close>, \<^verbatim>\<open>load\<close>; graph.py)\<close>

text \<open>A dict of strings, as the node-link file stores the attributes.\<close>

type_synonym str_dict = "(string \<times> string) list"

text \<open>\<^verbatim>\<open>d[key]\<close> raises KeyError for a missing key; \<^verbatim>\<open>d.get(key, default)\<close> does not.\<close>

definition dict_item :: "str_dict \<Rightarrow> string \<Rightarrow> py_error + string" where
  "dict_item d key = (case map_of d key of None \<Rightarrow> Inl KeyError | Some v \<Rightarrow> Inr v)"

definition dict_get :: "str_dict \<Rightarrow> string \<Rightarrow> string \<Rightarrow> string" where
  "dict_get d key dflt = (case map_of d key of None \<Rightarrow> dflt | Some v \<Rightarrow> v)"

definition and_then :: "py_error + 'a \<Rightarrow> ('a \<Rightarrow> py_error + 'b) \<Rightarrow> py_error + 'b" where
  "and_then r f = (case r of Inl err \<Rightarrow> Inl err | Inr v \<Rightarrow> f v)"

text \<open>\<^verbatim>\<open>self.type.name\<close> and \<^verbatim>\<open>KGNodeType[name]\<close>.\<close>

fun KGNodeType_name :: "KGNodeType \<Rightarrow> string" where
  "KGNodeType_name FILE = ''FILE''"
| "KGNodeType_name CLASS = ''CLASS''"
| "KGNodeType_name FUNCTION = ''FUNCTION''"

definition KGNodeType_of_name :: "string \<Rightarrow> py_error + KGNodeType" where
  "KGNodeType_of_name s =
     (if s = ''FILE'' then Inr FILE
      else if s = ''CLASS'' then Inr CLASS
      else if s = ''FUNCTION'' then Inr FUNCTION
      else Inl KeyError)"

text \<open>\<^verbatim>\<open>str(x)\<close> for an optional integer: \<^verbatim>\<open>str(None)\<close> is \<^verbatim>\<open>'None'\<close>.\<close>

definition str_optional :: "int option \<Rightarrow> string" where
  "str_optional x = (case x of None \<Rightarrow> ''None'' | Some i \<Rightarrow> py_str i)"

definition str_dict :: "KGNode \<Rightarrow> str_dict" where
  "str_dict n =
     [(''type'', KGNodeType_name (kg_type n)),
      (''symbol'', symbol n),
      (''file_name'', file_name n),
      (''line'', py_str (line n)),
      (''end_line'', str_optional (end_line n)),
      (''db_id'', str_optional (db_id n)),
      (''id'', str_optional (kg_id n))]"

text \<open>\<^verbatim>\<open>int(d[key]) if d[key] != "None" else None\<close>\<close>

definition int_or_None :: "string \<Rightarrow> py_error + int option" where
  "int_or_None s = (if s \<noteq> ''None'' then and_then (py_int s) (\<lambda>i. Inr (Some i)) else Inr None)"

text \<open>
  \<^verbatim>\<open>from_str_dict\<close>: the keyword arguments are evaluated in the order written, so the
  first failing one decides the exception. \<^verbatim>\<open>line\<close> and \<^verbatim>\<open>end_line\<close> are read with
  \<^verbatim>\<open>d.get\<close>; \<^verbatim>\<open>int(d.get("line", 0))\<close> is 0 for a missing key.
\<close>

definition from_str_dict :: "str_dict \<Rightarrow> py_error + KGNode" where
  "from_str_dict d =
     and_then (and_then (dict_item d ''type'') KGNodeType_of_name) (\<lambda>typ.
     and_then (dict_item d ''symbol'') (\<lambda>sym.
     and_then (dict_item d ''file_name'') (\<lambda>fname.
     and_then (case map_of d ''line'' of None \<Rightarrow> Inr 0 | Some s \<Rightarrow> py_int s) (\<lambda>ln.
     and_then (if dict_get d ''end_line'' ''None'' \<noteq> ''None''
               then and_then (and_then (dict_item d ''end_line'') py_int) (\<lambda>i. Inr (Some i))
               else Inr None) (\<lambda>eln.
     and_then (and_then (dict_item d ''db_id'') int_or_None) (\<lambda>dbid.
     and_then (and_then (dict_item d ''id'') int_or_None) (\<lambda>nid.
       Inr \<lparr>kg_type = typ, symbol = sym, file_name = fname, line = ln, end_line = eln,
            db_id = dbid, kg_id = nid\<rparr>)))))))"

text \<open>
  The node-link file of the graph library: the nodes with their index and attributes,
  and the links with the indices of their endpoints and their attributes. The file
  system is a map from paths to file contents.
\<close>

record node_link =
  nl_nodes :: "(nat \<times> str_dict) list"
  nl_links :: "(nat \<times> nat \<times> str_dict) list"

type_synonym file_system = "string \<rightharpoonup> node_link"

text \<open>
  \<^verbatim>\<open>CodeKnowledgeGraph.save\<close>: \<^verbatim>\<open>rx.node_link_json\<close> with
  \<^verbatim>\<open>node_attrs=lambda n: n.str_dict()\<close> and
  \<^verbatim>\<open>edge_attrs=lambda e: {"type": e["type"], "reverse": "1" if e.get("reverse", False) else "0"}\<close>.
\<close>

definition edge_attrs_out :: "KGEdge \<Rightarrow> str_dict" where
  "edge_attrs_out e =
     [(''type'', edge_type e),
      (''reverse'', if (case reverse e of None \<Rightarrow> False | Some b \<Rightarrow> b) then ''1'' else ''0'')]"

definition node_link_json :: "digraph \<Rightarrow> node_link" where
  "node_link_json g =
     \<lparr>nl_nodes = map (\<lambda>(i, n). (i, str_dict n)) (graph_nodes g),
      nl_links = map (\<lambda>(s, t, e). (s, t, edge_attrs_out e)) (graph_edges g)\<rparr>"

definition save :: "digraph \<Rightarrow> string \<Rightarrow> file_system \<Rightarrow> file_system" where
  "save g path fs = fs(path \<mapsto> node_link_json g)"

text \<open>
  \<^verbatim>\<open>rx.from_node_link_json_file\<close>, the graph library's reader: the nodes are added to a
  new graph in file order, so the k-th node of the file gets index k, and the file's node
  ids are mapped to the new indices; a later node with the same id replaces the mapping
  of an earlier one. Then the links are added between the mapped endpoints. The
  attribute callbacks are \<^verbatim>\<open>KGNode.from_str_dict\<close> and
  \<^verbatim>\<open>lambda d: {"type": d["type"], "reverse": d["reverse"] == "1"}\<close>.
\<close>

fun parse_nodes ::
  "(nat \<times> str_dict) list \<Rightarrow> KGNode list \<Rightarrow> (nat \<rightharpoonup> nat) \<Rightarrow> py_error + KGNode list \<times> (nat \<rightharpoonup> nat)"
where
  "parse_nodes [] payloads id_mapping = Inr (payloads, id_mapping)"
| "parse_nodes ((input_id, d) # rest) payloads id_mapping =
     (case from_str_dict d of
        Inl err \<Rightarrow> Inl err
      | Inr n \<Rightarrow> parse_nodes rest (payloads @ [n]) (id_mapping(input_id \<mapsto> length payloads)))"

definition edge_attrs_in :: "str_dict \<Rightarrow> py_error + KGEdge" where
  "edge_attrs_in d =
     and_then (dict_item d ''type'') (\<lambda>typ.
     and_then (dict_item d ''reverse'') (\<lambda>r.
       Inr \<lparr>edge_type = typ, reverse = Some (r = ''1''), src_file = None, target_file = None,
            idx = None\<rparr>))"

fun parse_links ::
  "(nat \<rightharpoonup> nat) \<Rightarrow> (nat \<times> nat \<times> str_dict) list \<Rightarrow> py_error + (nat \<times> nat \<times> KGEdge) list"
where
  "parse_links id_mapping [] = Inr []"
| "parse_links id_mapping ((source, target, d) # rest) =
     and_then (edge_attrs_in d) (\<lambda>e.
     and_then (case id_mapping source of None \<Rightarrow> Inl KeyError | Some s \<Rightarrow> Inr s) (\<lambda>s.
     and_then (case id_mapping target of None \<Rightarrow> Inl KeyError | Some t \<Rightarrow> Inr t) (\<lambda>t.
     and_then (parse_links id_mapping rest) (\<lambda>edges. Inr ((s, t, e) # edges)))))"

definition from_node_link_json_file :: "string \<Rightarrow> file_system \<Rightarrow> py_error + digraph" where
  "from_node_link_json_file path fs =
     (case fs path of
        None \<Rightarrow> Inl FileNotFoundError
      | Some file \<Rightarrow>
          and_then (parse_nodes (nl_nodes file) [] Map.empty) (\<lambda>(payloads, id_mapping).
          and_then (parse_links id_mapping (nl_links file)) (\<lambda>edges.
            Inr \<lparr>graph_nodes = zip [0..<length payloads] payloads, graph_edges = edges\<rparr>)))"

text \<open>
  The loop of \<^verbatim>\<open>CodeKnowledgeGraph.load\<close> over the edge indices: each edge payload is
  replaced by itself with \<^verbatim>\<open>idx\<close>, \<^verbatim>\<open>src_file\<close> and \<^verbatim>\<open>target_file\<close> set, the files
  being the \<^verbatim>\<open>file_name\<close> of the endpoint nodes.
\<close>

fun restore_edge_files ::
  "digraph \<Rightarrow> nat \<Rightarrow> (nat \<times> nat \<times> KGEdge) list \<Rightarrow> py_error + (nat \<times> nat \<times> KGEdge) list"
where
  "restore_edge_files g k [] = Inr []"
| "restore_edge_files g k ((src_node_id, target_node_id, e) # rest) =
     and_then (get_node_data g src_node_id) (\<lambda>src.
     and_then (get_node_data g target_node_id) (\<lambda>tgt.
     and_then (restore_edge_files g (Suc k) rest) (\<lambda>edges.
       Inr ((src_node_id, target_node_id,
             e\<lparr>idx := Some k, src_file := Some (file_name src),
               target_file := Some (file_name tgt)\<rparr>) # edges))))"

definition load :: "string \<Rightarrow> file_system \<Rightarrow> py_error + digraph" where
  "load path fs =
     and_then (from_node_link_json_file path fs) (\<lambda>graph.
     and_then (restore_edge_files graph 0 (graph_edges graph)) (\<lambda>edges.
       Inr (graph\<lparr>graph_edges := edges\<rparr>)))"

subsection \<open>Source analysis to graph nodes (\<^verbatim>\<open>ast_parse\<close>, code\_indexing.py)\<close>

text \<open>
  The parser is outside the repository. A scope is the dict that \<^verbatim>\<open>nested_scopes\<close>
  returns for it: the name of its \<^verbatim>\<open>ScopeType\<close>, its name (possibly \<open>None\<close>), the start
  and end of its range with lines counted from 1 (\<^verbatim>\<open>Location.to_dict\<close> adds 1 to the
  parser's row), and its children.
\<close>

datatype scope =
  Scope (sc_type: string) (sc_name: "string option")
        (sc_start_line: int) (sc_start_col: int) (sc_end_line: int) (sc_end_col: int)
        (sc_children: "scope list")

text \<open>
  The slice \<^verbatim>\<open>xs[a:b]\<close> of Python, negative bounds counting from the end, and
  \<^verbatim>\<open>sep.join(parts)\<close>.
\<close>

definition slice_bound :: "nat \<Rightarrow> int \<Rightarrow> nat" where
  "slice_bound len i = (if i < 0 then nat (max 0 (i + int len)) else min (nat i) len)"

definition py_slice :: "'a list \<Rightarrow> int \<Rightarrow> int \<Rightarrow> 'a list" where
  "py_slice xs a b =
     take (slice_bound (length xs) b - slice_bound (length xs) a) (drop (slice_bound (length xs) a) xs)"

fun py_join :: "string \<Rightarrow> string list \<Rightarrow> string" where
  "py_join sep [] = []"
| "py_join sep [part] = part"
| "py_join sep (part # parts) = part @ sep @ py_join sep parts"

text \<open>
  The lists \<^verbatim>\<open>nodes\<close>, \<^verbatim>\<open>contents\<close> and \<^verbatim>\<open>edges\<close> that \<^verbatim>\<open>ast_parse\<close> fills, and the
  counter behind \<^verbatim>\<open>get_unknown_ctr\<close>.
\<close>

record parse_state =
  ps_nodes :: "KGNode list"
  ps_contents :: "string list"
  ps_edges :: "(string \<times> string \<times> string) list"
  unknown_ctr :: int

text \<open>
  \<^verbatim>\<open>scope["name"] or get_unknown_ctr()\<close>: a name that is \<open>None\<close> or empty is replaced by
  \<^verbatim>\<open>unknown_n\<close>, \<open>n\<close> being the counter after it has been incremented.
\<close>

definition name_or_unknown :: "string option \<Rightarrow> parse_state \<Rightarrow> string \<times> parse_state" where
  "name_or_unknown name st =
     (case name of
        Some s \<Rightarrow>
          (if s \<noteq> [] then (s, st)
           else (''unknown_'' @ py_str (unknown_ctr st + 1), st\<lparr>unknown_ctr := unknown_ctr st + 1\<rparr>))
      | None \<Rightarrow> (''unknown_'' @ py_str (unknown_ctr st + 1), st\<lparr>unknown_ctr := unknown_ctr st + 1\<rparr>))"

text \<open>
  \<^verbatim>\<open>end_line = scope["range"]["end"]["line"]\<close>, less one when the end column is 0; for a
  class it is then clipped to the line before each child's start.
\<close>

definition scope_end :: "scope \<Rightarrow> int" where
  "scope_end s = (if sc_end_col s = 0 then sc_end_line s - 1 else sc_end_line s)"

definition class_end :: "scope \<Rightarrow> int" where
  "class_end s = fold (\<lambda>child e. min e (sc_start_line child - 1)) (sc_children s) (scope_end s)"

text \<open>
  \<^verbatim>\<open>recurse_scope(scopes, parent_node)\<close>. A class or function scope gives a node whose
  \<^verbatim>\<open>line\<close> is \<^verbatim>\<open>scope["range"]["start"]["line"] - 1\<close>, an edge to the parent and the
  content built from \<^verbatim>\<open>file_lines[start_line:end_line]\<close>; its children are visited with
  the new node as parent. Any other scope is passed through to its children.
\<close>

lemma size_sc_children: "size_list size (sc_children s) < size s"
  by (cases s) simp

function recurse_scope ::
  "string \<Rightarrow> string list \<Rightarrow> KGNode \<Rightarrow> scope list \<Rightarrow> parse_state \<Rightarrow> parse_state"
where
  "recurse_scope fname file_lines parent_node [] st = st"
| "recurse_scope fname file_lines parent_node (s # scopes) st =
     (if sc_type s = ''CLASS'' \<or> sc_type s = ''FUNCTION'' then
        (let (name, st1) = name_or_unknown (sc_name s) st;
             start_line = sc_start_line s - 1;
             end_ln = (if sc_type s = ''CLASS'' then class_end s else scope_end s);
             edge_kind = (if sc_type s = ''CLASS'' then ''class_def'' else ''function_def'');
             node = \<lparr>kg_type = (if sc_type s = ''CLASS'' then CLASS else FUNCTION),
                     symbol = symbol parent_node @ ''.'' @ name,
                     file_name = fname, line = sc_start_line s - 1, end_line = Some end_ln,
                     db_id = None, kg_id = None\<rparr>;
             content = ''# '' @ fname @ [CHR 0x0A] @ ''# '' @ symbol node @ [CHR 0x0A] @
                       py_join [CHR 0x0A] (py_slice file_lines start_line end_ln);
             st2 = st1\<lparr>ps_nodes := ps_nodes st1 @ [node],
                       ps_edges := ps_edges st1 @ [(symbol node, symbol parent_node, edge_kind)],
                       ps_contents := ps_contents st1 @ [content]\<rparr>
         in recurse_scope fname file_lines parent_node scopes
              (recurse_scope fname file_lines node (sc_children s) st2))
      else
        recurse_scope fname file_lines parent_node scopes
          (recurse_scope fname file_lines parent_node (sc_children s) st))"
  by pat_completeness auto
termination
  by (relation "measure (\<lambda>(fname, file_lines, parent_node, scopes, st). size_list size scopes)")
     (auto simp: size_sc_children less_Suc_eq trans_less_add1)

text \<open>
  \<^verbatim>\<open>file_name.rsplit(".", 1)[0].replace("/", ".")\<close>: the name up to its last dot (all of
  it when it has none), with every slash turned into a dot.
\<close>

definition file_symbol :: "string \<Rightarrow> string" where
  "file_symbol fname =
     map (\<lambda>c. if c = CHR ''/'' then CHR ''.'' else c)
       (if CHR ''.'' \<in> set fname
        then rev (tl (dropWhile (\<lambda>c. c \<noteq> CHR ''.'') (rev fname)))
        else fname)"

text \<open>
  The part of \<^verbatim>\<open>ast_parse\<close> for one file that has scopes: the file node with empty
  content, then \<^verbatim>\<open>recurse_scope(file_scope["children"], file_node)\<close>. \<open>file_lines\<close> is
  \<^verbatim>\<open>file_content.splitlines()\<close>.
\<close>

definition ast_parse_scoped :: "string \<Rightarrow> string list \<Rightarrow> scope list \<Rightarrow> parse_state \<Rightarrow> parse_state" where
  "ast_parse_scoped fname file_lines children st =
     (let file_node = \<lparr>kg_type = FILE, symbol = file_symbol fname, file_name = fname, line = 0,
                        end_line = None, db_id = None, kg_id = None\<rparr>
      in recurse_scope fname file_lines file_node children
           (st\<lparr>ps_nodes := ps_nodes st @ [file_node], ps_contents := ps_contents st @ [[]]\<rparr>))"

text \<open>
  Reference notions for the claims about the indexer. \<open>emitting\<close> lists the class and
  function scopes in the order \<open>recurse_scope\<close> reaches them. \<open>decorator_start\<close> follows
  the specification's words: from a 0-indexed line, go up across the lines immediately
  above that start with \<open>@\<close> after leading blanks.
\<close>

fun emitting :: "scope list \<Rightarrow> scope list" where
  "emitting [] = []"
| "emitting (Scope typ name sl sc el ec children # scopes) =
     (if typ = ''CLASS'' \<or> typ = ''FUNCTION''
      then Scope typ name sl sc el ec children # emitting children @ emitting scopes
      else emitting children @ emitting scopes)"

definition is_decorator_line :: "string \<Rightarrow> bool" where
  "is_decorator_line l =
     (case dropWhile (\<lambda>c. c = CHR '' '' \<or> c = CHR 0x09) l of [] \<Rightarrow> False | c # _ \<Rightarrow> c = CHR ''@'')"

fun decorator_start :: "string list \<Rightarrow> nat \<Rightarrow> nat" where
  "decorator_start file_lines 0 = 0"
| "decorator_start file_lines (Suc k) =
     (if k < length file_lines \<and> is_decorator_line (file_lines ! k)
      then decorator_start file_lines k else Suc k)"

text \<open>
  \<open>node_content\<close> is the content string of a class or function node in terms of the
  node itself: the two header lines and the source lines from \<open>line\<close> to \<open>end_line\<close>
  (to the end of the file for an \<open>end_line\<close> of \<open>None\<close>, as a Python slice does).
\<close>

definition node_content :: "string \<Rightarrow> string list \<Rightarrow> KGNode \<Rightarrow> string" where
  "node_content fname file_lines n =
     ''# '' @ fname @ [CHR 0x0A] @ ''# '' @ symbol n @ [CHR 0x0A] @
     py_join [CHR 0x0A]
       (py_slice file_lines (line n)
          (case end_line n of None \<Rightarrow> int (length file_lines) | Some e \<Rightarrow> e))"

section \<open>Properties\<close>

subsection \<open>Batching\<close>

lemma pack_batches_nonempty: "batches \<noteq> [] \<Longrightarrow> pack_batches batches ts \<noteq> []"
  by (induction ts arbitrary: batches) (auto simp: Let_def)

lemma concat_pack_batches:
  "batches \<noteq> [] \<Longrightarrow> concat (pack_batches batches ts) = concat batches @ ts"
proof (induction ts arbitrary: batches)
  case Nil
  then show ?case by simp
next
  case (Cons t ts)
  have split: "concat batches = concat (butlast batches) @ last batches"
    using Cons.prems by (metis append_butlast_last_id concat.simps(1,2) concat_append append_Nil2)
  show ?case
    using Cons.IH[of "butlast batches @ [last batches @ [t]]"]
          Cons.IH[of "butlast batches @ [last batches @ [t]] @ [[]]"]
    by (simp add: Let_def split)
qed

lemma concat_embed_batches: "concat (embed_batches texts) = texts"
  by (simp add: embed_batches_def concat_pack_batches)

lemma pack_batches_budget:
  "batches \<noteq> [] \<Longrightarrow> \<forall>b\<in>set batches. sum_list (map length (butlast b)) \<le> 20000 \<Longrightarrow>
   sum_list (map length (last batches)) \<le> 20000 \<Longrightarrow>
   \<forall>b\<in>set (pack_batches batches ts). sum_list (map length (butlast b)) \<le> 20000"
proof (induction ts arbitrary: batches)
  case Nil
  then show ?case by simp
next
  case (Cons t ts)
  let ?app = "butlast batches @ [last batches @ [t]]"
  have in_bl: "\<And>b. b \<in> set (butlast batches) \<Longrightarrow> b \<in> set batches"
    by (meson in_set_butlastD)
  have app_ok: "\<forall>b\<in>set ?app. sum_list (map length (butlast b)) \<le> 20000"
    using Cons.prems in_bl by auto
  show ?case
  proof (cases "sum_list (map length (last ?app)) > 20000")
    case True
    have "\<forall>b\<in>set (pack_batches (?app @ [[]]) ts). sum_list (map length (butlast b)) \<le> 20000"
      by (rule Cons.IH) (use app_ok in auto)
    with True show ?thesis by (simp add: Let_def)
  next
    case False
    have "\<forall>b\<in>set (pack_batches ?app ts). sum_list (map length (butlast b)) \<le> 20000"
      by (rule Cons.IH) (use app_ok False in auto)
    with False show ?thesis by (simp add: Let_def)
  qed
qed

text \<open>
  Claim C4, as stated: every batch has an aggregate character length of at most 20,000.
  It fails: the length is tested after the text has been appended, so the text that
  takes a batch over 20,000 stays in it. One text of 20,001 characters is a batch.
\<close>

theorem batch_budget_counterexample:
  "\<not> (\<forall>b\<in>set (embed_batches [replicate 20001 CHR ''a'']). sum_list (map length b) \<le> 20000)"
  by (simp add: embed_batches_def Let_def)

text \<open>
  Claim C4, amended: in every batch the texts before the last one have an aggregate
  character length of at most 20,000; a batch is closed right after the text that takes
  it above 20,000.
\<close>

theorem batch_budget_before_last:
  "b \<in> set (embed_batches texts) \<Longrightarrow> sum_list (map length (butlast b)) \<le> 20000"
  using pack_batches_budget[of "[[]]" texts] by (simp add: embed_batches_def)

theorem batch_budget_before_last_witness:
  "[''ab'', ''c''] \<in> set (embed_batches [''ab'', ''c'']) \<and>
   sum_list (map length (butlast [''ab'', ''c''])) \<le> 20000"
proof -
  have m: "[''ab'', ''c''] \<in> set (embed_batches [''ab'', ''c''])"
    by (simp add: embed_batches_def Let_def)
  show ?thesis using m batch_budget_before_last[OF m] by simp
qed

subsection \<open>One batch of the embedding adapter\<close>

lemma mem_nonempty_idxs:
  "i < length batch \<Longrightarrow> (i \<in> set (nonempty_idxs batch)) = (batch ! i \<noteq> [])"
  by (simp add: nonempty_idxs_def)

lemma request_texts:
  "map (\<lambda>i. batch ! i) (nonempty_idxs batch) = filter (\<lambda>t. t \<noteq> []) batch"
proof -
  have "map (\<lambda>i. batch ! i) (filter (\<lambda>i. batch ! i \<noteq> []) [0..<length batch])
        = filter (\<lambda>t. t \<noteq> []) (map (\<lambda>i. batch ! i) [0..<length batch])"
    by (simp add: filter_map comp_def)
  then show ?thesis by (simp add: nonempty_idxs_def map_nth)
qed

lemma fill_out_served:
  "set js \<subseteq> {..<length batch} \<Longrightarrow>
   fill_out (nonempty_idxs batch) js
     (map emb (filter (\<lambda>t. t \<noteq> []) (map (\<lambda>i. batch ! i) js)))
   = Inr (map (\<lambda>i. expected emb (batch ! i)) js)"
  by (induction js) (auto simp: mem_nonempty_idxs expected_def)

lemma fill_out_batch:
  "fill_out (nonempty_idxs batch) [0..<length batch]
     (map emb (filter (\<lambda>t. t \<noteq> []) batch))
   = Inr (map (expected emb) batch)"
proof -
  have "fill_out (nonempty_idxs batch) [0..<length batch]
     (map emb (filter (\<lambda>t. t \<noteq> []) (map (\<lambda>i. batch ! i) [0..<length batch])))
   = Inr (map (\<lambda>i. expected emb (batch ! i)) [0..<length batch])"
    by (rule fill_out_served) auto
  moreover have "map (\<lambda>i. expected emb (batch ! i)) [0..<length batch] = map (expected emb) batch"
    by (rule nth_equalityI) auto
  ultimately show ?thesis by (simp add: map_nth)
qed

lemma embed_attempts_served:
  assumes "serves backend input_type emb"
  shows "snd (embed_attempts backend input_type batch [1, 2, 3]) = Inr (map (expected emb) batch)"
    and "set (fst (embed_attempts backend input_type batch [1, 2, 3])) \<subseteq> {filter (\<lambda>t. t \<noteq> []) batch}"
proof -
  let ?req = "filter (\<lambda>t. t \<noteq> []) batch"
  obtain a where a: "a \<in> {1, 2, 3::nat}"
      "backend a input_type ?req = Embeddings (map emb ?req)"
      "\<forall>b. 1 \<le> b \<and> b < a \<longrightarrow> transient (backend b input_type ?req)"
    using assms unfolding serves_def by blast
  have goal: "snd (embed_attempts backend input_type batch [1, 2, 3]) = Inr (map (expected emb) batch)
     \<and> set (fst (embed_attempts backend input_type batch [1, 2, 3])) \<subseteq> {?req}"
  proof -
    consider "a = 1" | "a = 2" | "a = 3" using a(1) by auto
    then show ?thesis
    proof cases
      case 1
      then show ?thesis using a(2) by (simp add: request_texts fill_out_batch Let_def)
    next
      case 2
      then have "transient (backend 1 input_type ?req)" using a(3) by simp
      then show ?thesis using a(2) 2
        by (auto simp: transient_def request_texts fill_out_batch Let_def)
    next
      case 3
      then have "transient (backend 1 input_type ?req)" "transient (backend 2 input_type ?req)"
        using a(3) by simp_all
      then show ?thesis using a(2) 3
        by (auto simp: transient_def request_texts fill_out_batch Let_def)
    qed
  qed
  show "snd (embed_attempts backend input_type batch [1, 2, 3]) = Inr (map (expected emb) batch)"
    using goal by simp
  show "set (fst (embed_attempts backend input_type batch [1, 2, 3])) \<subseteq> {?req}"
    using goal by simp
qed

lemma nonempty_idxs_Nil: "(nonempty_idxs batch = []) = (\<forall>t\<in>set batch. t = [])"
  by (auto simp: nonempty_idxs_def filter_empty_conv all_set_conv_all_nth)

lemma embed_one_served:
  assumes "serves backend input_type emb"
  shows "snd (embed_one backend input_type batch) = Inr (map (expected emb) batch)"
    and "\<forall>request\<in>set (fst (embed_one backend input_type batch)). [] \<notin> set request"
proof -
  show "snd (embed_one backend input_type batch) = Inr (map (expected emb) batch)"
  proof (cases "nonempty_idxs batch = []")
    case True
    then have "\<forall>t\<in>set batch. t = []" by (simp add: nonempty_idxs_Nil)
    then have "map (expected emb) batch = map (\<lambda>t. None) batch"
      by (simp add: expected_def)
    then have "map (expected emb) batch = replicate (length batch) None"
      by (simp add: map_replicate_const)
    with True show ?thesis by (simp add: embed_one_def)
  next
    case False
    then show ?thesis using embed_attempts_served(1)[OF assms] by (simp add: embed_one_def)
  qed
  show "\<forall>request\<in>set (fst (embed_one backend input_type batch)). [] \<notin> set request"
    using embed_attempts_served(2)[OF assms, of batch] by (auto simp: embed_one_def)
qed

subsection \<open>Ordered gathering\<close>

lemma pop_done_sound:
  "pop_done finished futures = ((ys, err), rest) \<Longrightarrow>
   stream_of (map snd futures) =
     (case err of
        Some e \<Rightarrow> (ys, Some e)
      | None \<Rightarrow> (ys @ fst (stream_of (map snd rest)), snd (stream_of (map snd rest))))"
proof (induction finished futures arbitrary: ys err rest rule: pop_done.induct)
  case (1 finished)
  then show ?case by simp
next
  case (2 finished i r futures)
  show ?case
  proof (cases "i \<in> set finished")
    case False
    with 2 show ?thesis by (auto split: prod.splits)
  next
    case True
    show ?thesis
    proof (cases r)
      case (Inl e)
      with True 2 show ?thesis by auto
    next
      case (Inr v)
      obtain ys' err' rest' where p: "pop_done finished futures = ((ys', err'), rest')"
        by (metis prod.exhaust)
      with True Inr 2(2) have eq: "ys = v # ys'" "err = err'" "rest = rest'" by auto
      from 2(1)[OF True Inr p] show ?thesis using eq Inr
        by (auto split: option.splits prod.splits)
    qed
  qed
qed

lemma pop_done_rest:
  "pop_done finished futures = ((ys, None), rest) \<Longrightarrow>
   set rest \<subseteq> set futures \<and> (rest = [] \<or> fst (hd rest) \<notin> set finished)"
proof (induction finished futures arbitrary: ys rest rule: pop_done.induct)
  case (1 finished)
  then show ?case by simp
next
  case (2 finished i r futures)
  show ?case
  proof (cases "i \<in> set finished")
    case False
    with 2 show ?thesis by auto
  next
    case True
    show ?thesis
    proof (cases r)
      case (Inl e)
      with True 2 show ?thesis by auto
    next
      case (Inr v)
      obtain ys' err' rest' where p: "pop_done finished futures = ((ys', err'), rest')"
        by (metis prod.exhaust)
      with True Inr 2(2) have eq: "ys = v # ys'" "err' = None" "rest = rest'" by auto
      from 2(1)[OF True Inr] p eq show ?thesis by auto
    qed
  qed
qed

lemma gather_loop_sound:
  "gather_loop schedule finished futures = Some s \<Longrightarrow> s = stream_of (map snd futures)"
proof (induction schedule finished futures arbitrary: s rule: gather_loop.induct)
  case (1 schedule finished)
  then show ?case by simp
next
  case (2 finished f futures)
  then show ?case by simp
next
  case (3 dn schedule finished f futures)
  obtain i r where f: "f = (i, r)" by (cases f)
  show ?case
  proof (cases "i \<in> set dn")
    case False
    with "3.prems" f have "gather_loop schedule (finished @ dn) (f # futures) = Some s"
      by (simp add: Let_def)
    with "3.IH"(2)[OF refl] False f show ?thesis by simp
  next
    case True
    show ?thesis
    proof (cases r)
      case (Inl e)
      with True f "3.prems" show ?thesis by (simp add: Let_def)
    next
      case (Inr v)
      obtain ys err rest where p: "pop_done (finished @ dn) futures = ((ys, err), rest)"
        by (metis prod.exhaust)
      note snd = pop_done_sound[OF p]
      show ?thesis
      proof (cases err)
        case (Some e)
        with True f Inr p "3.prems" snd show ?thesis by (simp add: Let_def)
      next
        case None
        from True f Inr p None "3.prems" obtain zs e where
          g: "gather_loop schedule (finished @ dn) rest = Some (zs, e)" and s: "s = (v # ys @ zs, e)"
          by (auto simp: Let_def split: option.splits)
        have "stream_of (map snd rest) = (zs, e)"
          by (rule "3.IH"(1)[OF refl _ _ refl p[symmetric] refl _ g, symmetric]) (use True f Inr None in auto)
        with s snd None f Inr show ?thesis by (auto split: prod.splits)
      qed
    qed
  qed
qed

lemma gather_loop_returns:
  "\<forall>f\<in>set futures. fst f \<in> set finished \<union> set (concat schedule) \<Longrightarrow>
   futures = [] \<or> fst (hd futures) \<notin> set finished \<Longrightarrow>
   \<exists>s. gather_loop schedule finished futures = Some s"
proof (induction schedule finished futures rule: gather_loop.induct)
  case (1 schedule finished)
  then show ?case by simp
next
  case (2 finished f futures)
  then show ?case by simp
next
  case (3 dn schedule finished f futures)
  obtain i r where f: "f = (i, r)" by (cases f)
  show ?case
  proof (cases "i \<in> set dn")
    case False
    have "\<exists>s. gather_loop schedule (finished @ dn) (f # futures) = Some s"
      by (rule "3.IH"(2)[OF refl]) (use False f "3.prems" in auto)
    with False f show ?thesis by (simp add: Let_def)
  next
    case True
    show ?thesis
    proof (cases r)
      case (Inl e)
      with True f show ?thesis by (simp add: Let_def)
    next
      case (Inr v)
      obtain ys err rest where p: "pop_done (finished @ dn) futures = ((ys, err), rest)"
        by (metis prod.exhaust)
      show ?thesis
      proof (cases err)
        case (Some e)
        with True f Inr p show ?thesis by (simp add: Let_def)
      next
        case None
        note rest = pop_done_rest[OF p[unfolded None]]
        have "\<exists>s. gather_loop schedule (finished @ dn) rest = Some s"
          by (rule "3.IH"(1)[OF refl _ _ refl p[symmetric] refl])
             (use True f Inr None rest "3.prems"(1) in auto)
        with True f Inr p None show ?thesis by (auto simp: Let_def)
      qed
    qed
  qed
qed

lemma ordered_as_completed_in_order:
  assumes "\<forall>i<length awaitables. i \<in> set (concat schedule)"
  shows "ordered_as_completed schedule awaitables = Some (stream_of awaitables)"
proof -
  let ?fs = "zip [0..<length awaitables] awaitables"
  have "\<forall>f\<in>set ?fs. fst f \<in> set [] \<union> set (concat schedule)"
    using assms by (auto simp: in_set_zip)
  then obtain s where s: "gather_loop schedule [] ?fs = Some s"
    using gather_loop_returns[of ?fs "[]" schedule] by auto
  from gather_loop_sound[OF s] have "s = stream_of awaitables" by simp
  with s show ?thesis by (simp add: ordered_as_completed_def)
qed

lemma stream_of_all_Inr: "stream_of (map Inr xs) = (xs, None)"
  by (induction xs) auto

subsection \<open>The embedding stream\<close>

text \<open>
  Claim C3. \<^verbatim>\<open>Code.embed(texts, input_type)\<close> yields exactly \<open>len(texts)\<close> values, the
  i-th for \<open>texts[i]\<close>, whatever the order in which the batches complete; an empty
  string yields \<open>None\<close> and is never part of a request to the service; with embeddings
  disabled every input yields \<open>None\<close> and nothing is sent. The service is assumed to
  answer each request within the three attempts, and every batch to complete.
\<close>

theorem embed_in_order:
  assumes "serves backend input_type emb"
    and "\<forall>i<length (embed_batches texts). i \<in> set (concat schedule)"
  shows "(\<exists>sent.
            embed True backend schedule texts input_type =
              Some (sent, (map (\<lambda>t. if t = [] then None else Some (emb t)) texts, None)) \<and>
            (\<forall>request\<in>set sent. [] \<notin> set request)) \<and>
         length (map (\<lambda>t. if t = [] then None else Some (emb t)) texts) = length texts \<and>
         embed False backend schedule texts input_type =
           Some ([], (replicate (length texts) None, None))"
proof -
  let ?batches = "embed_batches texts"
  let ?runs = "map (embed_one backend input_type) ?batches"
  have results: "map snd ?runs = map Inr (map (map (expected emb)) ?batches)"
    using embed_one_served(1)[OF assms(1)] by simp
  have "ordered_as_completed schedule (map snd ?runs) = Some (stream_of (map snd ?runs))"
    by (rule ordered_as_completed_in_order) (use assms(2) in simp)
  then have gathered:
    "ordered_as_completed schedule (map snd ?runs) = Some (map (map (expected emb)) ?batches, None)"
    by (simp only: results stream_of_all_Inr)
  have "concat (map (map (expected emb)) ?batches) = map (expected emb) (concat ?batches)"
    by (simp add: map_concat)
  then have flat: "concat (map (map (expected emb)) ?batches) = map (expected emb) texts"
    by (simp add: concat_embed_batches)
  have exp: "expected emb = (\<lambda>t. if t = [] then None else Some (emb t))"
    by (rule ext) (simp add: expected_def)
  have sent: "\<forall>request\<in>set (concat (map fst ?runs)). [] \<notin> set request"
    using embed_one_served(2)[OF assms(1)] by auto
  have on: "embed True backend schedule texts input_type =
      Some (concat (map fst ?runs), (map (\<lambda>t. if t = [] then None else Some (emb t)) texts, None))"
    unfolding embed_def Let_def using gathered flat by (simp add: exp)
  have off: "embed False backend schedule texts input_type =
           Some ([], (replicate (length texts) None, None))"
    by (simp add: embed_def map_replicate_const)
  from on sent off show ?thesis by simp
qed

theorem embed_in_order_witness:
  "(\<exists>sent.
      embed True (\<lambda>a it ts. if a = 1 then ResourceExhausted else Embeddings (map length ts))
        [[0]] [''ab'', '''', ''c''] ''RETRIEVAL_DOCUMENT'' =
        Some (sent, ([Some 2, None, Some 1], None)) \<and>
      (\<forall>request\<in>set sent. [] \<notin> set request)) \<and>
   embed False (\<lambda>a it ts. if a = 1 then ResourceExhausted else Embeddings (map length ts))
     [[0]] [''ab'', '''', ''c''] ''RETRIEVAL_DOCUMENT'' =
     Some ([], ([None, None, None], None))"
proof -
  let ?w = "\<lambda>(a::nat) (it::string) (ts::string list).
     if a = 1 then ResourceExhausted else Embeddings (map length ts)"
  have s: "serves ?w ''RETRIEVAL_DOCUMENT'' length"
    by (simp add: serves_def transient_def)
  have b: "embed_batches [''ab'', '''', ''c''] = [[''ab'', '''', ''c'']]"
    by (simp add: embed_batches_def Let_def)
  have c: "\<forall>i<length (embed_batches [''ab'', '''', ''c'']). i \<in> set (concat [[0]])"
    by (simp add: b)
  show ?thesis
    using embed_in_order[OF s c] by (simp add: numeral_2_eq_2 numeral_3_eq_3)
qed

subsection \<open>The PageRank weight function\<close>

lemma py_split_first:
  "\<exists>ws. py_split sep s = takeWhile (\<lambda>c. c \<noteq> sep) s # ws"
  by (induction s) (auto split: list.splits)

lemma is_test_target_eq:
  "is_test_target tf = Inr (sublist ''test'' (takeWhile (\<lambda>c. c \<noteq> CHR ''_'') tf))"
proof -
  obtain ws where "py_split CHR ''_'' tf = takeWhile (\<lambda>c. c \<noteq> CHR ''_'') tf # ws"
    using py_split_first by blast
  then show ?thesis by (simp add: is_test_target_def)
qed

lemma test_prefix_is_test_target:
  assumes "prefix ''test'' tf"
  shows "sublist ''test'' (takeWhile (\<lambda>c. c \<noteq> CHR ''_'') tf)"
proof -
  from assms obtain rest where "tf = ''test'' @ rest" by (auto simp: prefix_def)
  then have "takeWhile (\<lambda>c. c \<noteq> CHR ''_'') tf = ''test'' @ takeWhile (\<lambda>c. c \<noteq> CHR ''_'') rest"
    by simp
  then show ?thesis by (metis prefix_imp_sublist prefixI)
qed

text \<open>
  Claim C6. The test branch of the weight function is taken exactly when the substring
  \<open>test\<close> occurs in \<^verbatim>\<open>target_file.split("_")[0]\<close>, the part of \<open>target_file\<close> before its
  first underscore. On that branch the weight is 1.0 when \<open>only_tests\<close> and 0.1 otherwise;
  off that branch the weight is the one of the remaining rules. In particular a
  \<open>target_file\<close> that starts with \<open>test\<close> takes the branch.
\<close>

theorem weight_fn_test_branch:
  assumes "target_file e = Some tf"
  shows "(sublist ''test'' (takeWhile (\<lambda>c. c \<noteq> CHR ''_'') tf) \<longrightarrow>
            weight_fn only_tests rev_pass e = Inr (if only_tests then 1 else 1 / 10)) \<and>
         (\<not> sublist ''test'' (takeWhile (\<lambda>c. c \<noteq> CHR ''_'') tf) \<longrightarrow>
            weight_fn only_tests rev_pass e =
              (if only_tests then Inr (1 / 100)
               else case reverse e of
                      None \<Rightarrow> Inl KeyError
                    | Some r \<Rightarrow>
                        Inr (if rev_pass \<noteq> r \<and>
                                edge_type e \<in> {''call'', ''class_ref'', ''test_coverage''}
                             then 1 else 1 / 100))) \<and>
         (prefix ''test'' tf \<longrightarrow>
            weight_fn only_tests rev_pass e = Inr (if only_tests then 1 else 1 / 10))"
proof -
  have a: "sublist ''test'' (takeWhile (\<lambda>c. c \<noteq> CHR ''_'') tf) \<Longrightarrow>
      weight_fn only_tests rev_pass e = Inr (if only_tests then 1 else 1 / 10)"
    using assms by (simp add: weight_fn_def is_test_target_eq)
  have b: "\<not> sublist ''test'' (takeWhile (\<lambda>c. c \<noteq> CHR ''_'') tf) \<Longrightarrow>
      weight_fn only_tests rev_pass e =
              (if only_tests then Inr (1 / 100)
               else case reverse e of
                      None \<Rightarrow> Inl KeyError
                    | Some r \<Rightarrow>
                        Inr (if rev_pass \<noteq> r \<and>
                                edge_type e \<in> {''call'', ''class_ref'', ''test_coverage''}
                             then 1 else 1 / 100))"
    using assms by (simp add: weight_fn_def is_test_target_eq split: option.splits)
  from a b test_prefix_is_test_target show ?thesis by blast
qed

theorem weight_fn_test_branch_witness:
  "weight_fn False False
     \<lparr>edge_type = ''call'', reverse = Some False, src_file = Some ''src/foo.py'',
      target_file = Some ''tests/test_foo.py'', idx = None\<rparr> = Inr (1 / 10) \<and>
   weight_fn False False
     \<lparr>edge_type = ''call'', reverse = Some True, src_file = Some ''tests/test_foo.py'',
      target_file = Some ''src/foo_test.py'', idx = None\<rparr> = Inr 1"
proof -
  let ?e = "\<lparr>edge_type = ''call'', reverse = Some False, src_file = Some ''src/foo.py'',
      target_file = Some ''tests/test_foo.py'', idx = None\<rparr>"
  let ?e' = "\<lparr>edge_type = ''call'', reverse = Some True, src_file = Some ''tests/test_foo.py'',
      target_file = Some ''src/foo_test.py'', idx = None\<rparr>"
  have s: "sublist ''test'' (takeWhile (\<lambda>c. c \<noteq> CHR ''_'') ''tests/test_foo.py'')"
    by (simp add: sublist_Cons_right)
  have n: "\<not> sublist ''test'' (takeWhile (\<lambda>c. c \<noteq> CHR ''_'') ''src/foo_test.py'')"
    by (simp add: sublist_Cons_right)
  have t: "target_file ?e = Some ''tests/test_foo.py''" by simp
  have t': "target_file ?e' = Some ''src/foo_test.py''" by simp
  have 1: "weight_fn False False ?e = Inr (if False then 1 else 1 / 10)"
    by (rule weight_fn_test_branch[OF t, of False False, THEN conjunct1, THEN mp, OF s])
  have 2: "weight_fn False False ?e' =
      (if False then Inr (1 / 100)
       else case reverse ?e' of
              None \<Rightarrow> Inl KeyError
            | Some r \<Rightarrow>
                Inr (if False \<noteq> r \<and> edge_type ?e' \<in> {''call'', ''class_ref'', ''test_coverage''}
                     then 1 else 1 / 100))"
    by (rule weight_fn_test_branch[OF t', of False False, THEN conjunct2, THEN conjunct1, THEN mp, OF n])
  from 1 have w1: "weight_fn False False ?e = Inr (1 / 10)" by simp
  from 2 have w2: "weight_fn False False ?e' = Inr 1" by simp
  from w1 w2 show ?thesis by (rule conjI)
qed

subsection \<open>Seed bias\<close>

lemma fold_update_nonempty:
  "acc \<noteq> [] \<Longrightarrow> fold (\<lambda>(hit, score). AList.update (f hit) score) hits acc \<noteq> []"
proof (induction hits arbitrary: acc)
  case Nil
  then show ?case by simp
next
  case (Cons h hits)
  obtain hit score where h: "h = (hit, score)" by (cases h)
  have "fold (\<lambda>(hit, score). AList.update (f hit) score) hits (AList.update (f hit) score acc) \<noteq> []"
    by (rule Cons.IH) simp
  then show ?case by (simp add: h)
qed

lemma personalization_of_nonempty:
  assumes "search_hits \<noteq> []"
  shows "personalization_of search_hits \<noteq> []"
proof -
  from assms obtain hit score rest where h: "search_hits = (hit, score) # rest"
    by (cases search_hits) auto
  have "fold (\<lambda>(hit, score). AList.update (code_node_id hit) score) rest
          (AList.update (code_node_id hit) score []) \<noteq> []"
    by (rule fold_update_nonempty) simp
  then show ?thesis by (simp add: personalization_of_def h)
qed

text \<open>
  Claim C10. With no search hit and a non-empty list of seed nodes the ranking raises
  (ValueError, from \<open>max\<close> over the empty personalization values) instead of returning
  a result; with at least one search hit the seed-bias step returns.
\<close>

theorem seed_bias_needs_hit:
  assumes "seed_nodes \<noteq> []"
  shows "search_rank pagerank g top_k ([] :: ('e Code \<times> real) list) seed_nodes overlay_files
            only_tests = Inl ValueError \<and>
         (search_hits \<noteq> [] \<longrightarrow>
            (\<exists>p. seed_bias (personalization_of search_hits) seed_nodes = Inr p))"
proof -
  have "seed_bias (personalization_of ([] :: ('e Code \<times> real) list)) seed_nodes = Inl ValueError"
    using assms by (simp add: seed_bias_def personalization_of_def)
  then have 1: "search_rank pagerank g top_k ([] :: ('e Code \<times> real) list) seed_nodes
      overlay_files only_tests = Inl ValueError"
    by (simp add: search_rank_def)
  have 2: "\<exists>p. seed_bias (personalization_of search_hits) seed_nodes = Inr p"
    if "search_hits \<noteq> []"
  proof -
    from that have "map snd (personalization_of search_hits) \<noteq> []"
      by (simp add: personalization_of_nonempty)
    then obtain x xs where "map snd (personalization_of search_hits) = x # xs"
      by (cases "map snd (personalization_of search_hits)") auto
    then show ?thesis using assms by (simp add: seed_bias_def)
  qed
  show ?thesis
  proof (intro conjI impI)
    show "search_rank pagerank g top_k ([] :: ('e Code \<times> real) list) seed_nodes
      overlay_files only_tests = Inl ValueError" by (rule 1)
    show "\<exists>p. seed_bias (personalization_of search_hits) seed_nodes = Inr p"
      if "search_hits \<noteq> []" using that by (rule 2)
  qed
qed

theorem seed_bias_needs_hit_witness:
  "search_rank (\<lambda>g w p. FailedToConverge) \<lparr>graph_nodes = [], graph_edges = []\<rparr> 50
     ([] :: (unit Code \<times> real) list)
     [\<lparr>kg_type = FILE, symbol = ''a'', file_name = ''a.py'', line = 0, end_line = None,
       db_id = None, kg_id = Some 0\<rparr>]
     Map.empty False = Inl ValueError \<and>
   seed_bias
     (personalization_of
        [(\<lparr>code_id = Some 1, code_file = Some ''a.py'', code_text = Some '''',
           code_node_id = Some 3, code_graph_id = ''1'', code_embedding = (None :: unit option)\<rparr>,
          1 / 2)])
     [\<lparr>kg_type = FILE, symbol = ''a'', file_name = ''a.py'', line = 0, end_line = None,
       db_id = None, kg_id = Some 0\<rparr>]
   = Inr [(Some 3, 1 / 2), (Some 0, 1 / 2)]"
proof -
  let ?seed = "\<lparr>kg_type = FILE, symbol = ''a'', file_name = ''a.py'', line = 0, end_line = None,
       db_id = None, kg_id = Some 0\<rparr>"
  have ne: "[?seed] \<noteq> []" by simp
  have "seed_bias
     (personalization_of
        [(\<lparr>code_id = Some 1, code_file = Some ''a.py'', code_text = Some '''',
           code_node_id = Some 3, code_graph_id = ''1'', code_embedding = (None :: unit option)\<rparr>,
          1 / 2)]) [?seed] = Inr [(Some 3, 1 / 2), (Some 0, 1 / 2)]"
    by (simp add: seed_bias_def personalization_of_def)
  moreover have "search_rank (\<lambda>g w p. FailedToConverge) \<lparr>graph_nodes = [], graph_edges = []\<rparr> 50
     ([] :: (unit Code \<times> real) list) [?seed] Map.empty False = Inl ValueError"
    using seed_bias_needs_hit[OF ne] by (rule conjunct1)
  ultimately show ?thesis by (rule conjI[rotated])
qed

subsection \<open>Ranking order\<close>











lemma set_slice_to: "set (slice_to k xs) \<subseteq> set xs"
  by (auto simp: slice_to_def dest: in_set_takeD)












subsection \<open>Integers as text\<close>

lemma py_str_nonneg_digits: "list_all is_digit (nat_digits n) \<and> nat_digits n \<noteq> []"
proof (induction n rule: nat_digits.induct)
  case (1 n)
  have d: "is_digit (digit_char k)" if "k < 10" for k
    using that by (simp add: is_digit_def digit_char_def)
  show ?case
  proof (cases "n < 10")
    case True
    then show ?thesis using d[of n] by (subst nat_digits.simps, subst (2) nat_digits.simps) simp
  next
    case False
    then show ?thesis using 1 d[of "n mod 10"]
      by (subst nat_digits.simps, subst (2) nat_digits.simps) simp
  qed
qed

lemma digits_value_nat_digits: "digits_value (nat_digits n) = n"
proof (induction n rule: nat_digits.induct)
  case (1 n)
  have v: "(of_char (digit_char k) :: nat) - 48 = k" if "k < 10" for k
    using that by (simp add: digit_char_def)
  show ?case
  proof (cases "n < 10")
    case True
    then show ?thesis using v[of n] by (subst nat_digits.simps) (simp add: digits_value_def)
  next
    case False
    then have "digits_value (nat_digits n) = 10 * digits_value (nat_digits (n div 10)) + n mod 10"
      using v[of "n mod 10"] by (subst nat_digits.simps) (simp add: digits_value_def)
    with False 1 show ?thesis by simp
  qed
qed

subsection \<open>Hybrid search\<close>

lemma parse_digits_nat_digits: "parse_digits (nat_digits n) = Inr n"
  using py_str_nonneg_digits[of n] by (simp add: parse_digits_def digits_value_nat_digits)

lemma is_digit_not_sign: "is_digit c \<Longrightarrow> c \<noteq> CHR ''-'' \<and> c \<noteq> CHR ''+''"
  by (auto simp: is_digit_def)

lemma py_int_py_str: "py_int (py_str i) = Inr i"
proof (cases "i < 0")
  case True
  then show ?thesis by (simp add: py_str_def parse_digits_nat_digits)
next
  case False
  obtain c cs where cs: "nat_digits (nat i) = c # cs"
    using py_str_nonneg_digits[of "nat i"] by (cases "nat_digits (nat i)") auto
  with py_str_nonneg_digits[of "nat i"] have "is_digit c" by simp
  then have "c \<noteq> CHR ''-''" "c \<noteq> CHR ''+''" using is_digit_not_sign by blast+
  moreover have "parse_digits (c # cs) = Inr (nat i)"
    using parse_digits_nat_digits[of "nat i"] cs by simp
  ultimately show ?thesis using False cs by (simp add: py_str_def)
qed

lemma py_str_not_None: "py_str i \<noteq> ''None''"
proof (cases "i < 0")
  case True
  then show ?thesis by (simp add: py_str_def)
next
  case False
  obtain c cs where cs: "nat_digits (nat i) = c # cs"
    using py_str_nonneg_digits[of "nat i"] by (cases "nat_digits (nat i)") auto
  with py_str_nonneg_digits[of "nat i"] have "is_digit c" by simp
  then have "c \<noteq> CHR ''N''" by (auto simp: is_digit_def)
  with False cs show ?thesis by (simp add: py_str_def)
qed

lemma order_by_score_desc_sorted:
  "sorted_wrt (\<lambda>x y. snd y \<le> snd x) (order_by_score_desc rows)"
proof -
  have "sorted (map snd (sort_key snd (rev rows)))" by (rule sorted_sort_key)
  then have "sorted_wrt (\<lambda>x y. snd x \<le> snd y) (sort_key snd (rev rows))"
    by (simp add: sorted_map)
  then show ?thesis by (simp add: order_by_score_desc_def sorted_wrt_rev)
qed

lemma length_order_by_score_desc: "length (order_by_score_desc rows) = length rows"
  by (simp add: order_by_score_desc_def)

lemma length_Code_search:
  "0 \<le> top_n \<Longrightarrow>
   map_sum id length (Code_search table scores graph_id (Some top_n)) =
     Inr (min (nat top_n)
            (length (filter (\<lambda>(c, score). code_graph_id c = graph_id) (join_scores table scores))))"
  by (simp add: Code_search_def length_order_by_score_desc min.commute)

text \<open>
  Claim C7, as stated: \<^verbatim>\<open>Code.search\<close> returns at most \<open>top\<close> rows, by score descending,
  and \<open>top\<close> is 150 when the caller does not supply it. The default of the parameter is
  20: over 21 scored rows of the graph, a call without \<open>top\<close> returns 20 rows, where
  \<open>top = 150\<close> returns all 21.
\<close>

theorem Code_search_default_counterexample:
  "map_sum id length
     (Code_search
        (map (\<lambda>i. \<lparr>code_id = Some i, code_file = Some ''a.py'', code_text = Some ''x'',
                    code_node_id = Some i, code_graph_id = ''1'',
                    code_embedding = (None :: unit option)\<rparr>) [1, 2, 3, 4, 5, 6, 7, 8, 9, 10, 11, 12, 13, 14, 15, 16, 17, 18, 19, 20, 21])
        (map (\<lambda>i. (i, 1)) [1, 2, 3, 4, 5, 6, 7, 8, 9, 10, 11, 12, 13, 14, 15, 16, 17, 18, 19, 20, 21]) ''1'' None) = Inr 20 \<and>
   map_sum id length
     (Code_search
        (map (\<lambda>i. \<lparr>code_id = Some i, code_file = Some ''a.py'', code_text = Some ''x'',
                    code_node_id = Some i, code_graph_id = ''1'',
                    code_embedding = (None :: unit option)\<rparr>) [1, 2, 3, 4, 5, 6, 7, 8, 9, 10, 11, 12, 13, 14, 15, 16, 17, 18, 19, 20, 21])
        (map (\<lambda>i. (i, 1)) [1, 2, 3, 4, 5, 6, 7, 8, 9, 10, 11, 12, 13, 14, 15, 16, 17, 18, 19, 20, 21]) ''1'' (Some 150)) = Inr 21"
proof -
  let ?T = "map (\<lambda>i. \<lparr>code_id = Some i, code_file = Some ''a.py'', code_text = Some ''x'',
                    code_node_id = Some i, code_graph_id = ''1'',
                    code_embedding = (None :: unit option)\<rparr>) [1, 2, 3, 4, 5, 6, 7, 8, 9, 10, 11, 12, 13, 14, 15, 16, 17, 18, 19, 20, 21]"
  let ?S = "map (\<lambda>i. (i, 1 :: real)) [1, 2, 3, 4, 5, 6, 7, 8, 9, 10, 11, 12, 13, 14, 15, 16, 17, 18, 19, 20, 21]"
  have n: "length (filter (\<lambda>(c, score). code_graph_id c = ''1'') (join_scores ?T ?S)) = 21"
    by (simp add: join_scores_def)
  have d: "Code_search ?T ?S ''1'' None = Code_search ?T ?S ''1'' (Some 20)"
    by (simp add: Code_search_def)
  have "map_sum id length (Code_search ?T ?S ''1'' (Some 20)) = Inr 20"
    by (subst length_Code_search) (simp_all only: n, simp_all)
  moreover have "map_sum id length (Code_search ?T ?S ''1'' (Some 150)) = Inr 21"
    by (subst length_Code_search) (simp_all only: n, simp_all)
  ultimately show ?thesis by (simp only: d)
qed

text \<open>
  Claim C7, amended: \<^verbatim>\<open>Code.search\<close> returns at most \<open>top\<close> rows ordered by score
  descending; its own default for \<open>top\<close> is 20. \<^verbatim>\<open>GraphRag.search\<close> always supplies
  \<open>top = search_top\<close>, whose default is 150.
\<close>

theorem Code_search_limit:
  "(Code_search table scores graph_id top_arg = Inr hits \<longrightarrow>
      int (length hits) \<le> (case top_arg of None \<Rightarrow> 20 | Some t \<Rightarrow> t) \<and>
      sorted_wrt (\<lambda>x y. snd y \<le> snd x) hits) \<and>
   Code_search table scores graph_id None = Code_search table scores graph_id (Some 20) \<and>
   search_top (GraphRag_defaults fid) = 150 \<and>
   GraphRag_search_hits (GraphRag_defaults fid) table scores =
     Code_search table scores (py_str fid) (Some 150)"
proof -
  have a: "int (length hits) \<le> (case top_arg of None \<Rightarrow> 20 | Some t \<Rightarrow> t) \<and>
      sorted_wrt (\<lambda>x y. snd y \<le> snd x) hits"
    if "Code_search table scores graph_id top_arg = Inr hits"
  proof -
    let ?top = "case top_arg of None \<Rightarrow> 20 | Some t \<Rightarrow> t"
    let ?rows = "order_by_score_desc
                     (filter (\<lambda>(c, score). code_graph_id c = graph_id) (join_scores table scores))"
    from that have nn: "0 \<le> ?top" and h: "hits = take (nat ?top) ?rows"
      by (auto simp: Code_search_def Let_def split: if_splits)
    from h have "length hits \<le> nat ?top" by simp
    with nn have "int (length hits) \<le> ?top" by linarith
    moreover have "sorted_wrt (\<lambda>x y. snd y \<le> snd x) hits"
      unfolding h using order_by_score_desc_sorted by (rule sorted_wrt_take)
    ultimately show ?thesis by simp
  qed
  have b: "Code_search table scores graph_id None = Code_search table scores graph_id (Some 20)"
    by (simp add: Code_search_def)
  have c: "search_top (GraphRag_defaults fid) = 150"
    by (simp add: GraphRag_defaults_def)
  have d: "GraphRag_search_hits (GraphRag_defaults fid) table scores =
     Code_search table scores (py_str fid) (Some 150)"
    by (simp add: GraphRag_search_hits_def GraphRag_defaults_def graphid_def)
  from a b c d show ?thesis by blast
qed

theorem Code_search_limit_witness:
  "Code_search
     [\<lparr>code_id = Some 1, code_file = Some ''a.py'', code_text = Some ''x'',
       code_node_id = Some 0, code_graph_id = ''1'', code_embedding = (None :: unit option)\<rparr>,
      \<lparr>code_id = Some 2, code_file = Some ''a.py'', code_text = Some ''y'',
       code_node_id = Some 1, code_graph_id = ''1'', code_embedding = None\<rparr>]
     [(1, 1 / 4), (2, 3 / 4)] ''1'' (Some 1)
   = Inr [(\<lparr>code_id = Some 2, code_file = Some ''a.py'', code_text = Some ''y'',
            code_node_id = Some 1, code_graph_id = ''1'', code_embedding = None\<rparr>, 3 / 4)] \<and>
   int (length [(\<lparr>code_id = Some 2, code_file = Some ''a.py'', code_text = Some ''y'',
            code_node_id = Some 1, code_graph_id = ''1'', code_embedding = (None :: unit option)\<rparr>,
           3 / 4 :: real)]) \<le> (case Some 1 of None \<Rightarrow> 20 | Some t \<Rightarrow> t)"
proof -
  let ?r1 = "\<lparr>code_id = Some 1, code_file = Some ''a.py'', code_text = Some ''x'',
       code_node_id = Some 0, code_graph_id = ''1'', code_embedding = (None :: unit option)\<rparr>"
  let ?r2 = "\<lparr>code_id = Some 2, code_file = Some ''a.py'', code_text = Some ''y'',
       code_node_id = Some 1, code_graph_id = ''1'', code_embedding = (None :: unit option)\<rparr>"
  have res: "Code_search [?r1, ?r2] [(1, 1 / 4), (2, 3 / 4)] ''1'' (Some 1) = Inr [(?r2, 3 / 4)]"
    by (simp add: Code_search_def join_scores_def order_by_score_desc_def)
  note th = Code_search_limit[of "[?r1, ?r2]" "[(1, 1 / 4), (2, 3 / 4)]" "''1''" "Some 1"
      "[(?r2, 3 / 4)]" 0, THEN conjunct1, THEN mp, OF res, THEN conjunct1]
  from res th show ?thesis by (rule conjI)
qed

subsection \<open>Invalidation and ingest progress\<close>

lemma delete_many_no_ids:
  "\<forall>i\<in>set ids. i = None \<Longrightarrow> delete_many ids db = db"
proof -
  assume a: "\<forall>i\<in>set ids. i = None"
  have "filter (\<lambda>r. \<not> (code_id r \<noteq> None \<and> code_id r \<in> set ids)) (table_rows db) = table_rows db"
    using a by (auto intro!: filter_True)
  then show ?thesis by (simp add: delete_many_def)
qed

lemma bulk_action_deletes_only:
  "bulk_action enabled backend schedule graph_id
     (map (\<lambda>node_id. \<lparr>action_type = DELETE, action_file = None, action_content = None,
                       action_embedding = None, action_id = None,
                       action_node_id = node_id\<rparr>) node_ids) db = Some (db, [], None)"
proof -
  let ?acts = "map (\<lambda>node_id. \<lparr>action_type = DELETE, action_file = None, action_content = None,
                       action_embedding = None, action_id = None,
                       action_node_id = node_id\<rparr>) node_ids"
  have c: "filter (\<lambda>a. action_type a = CREATE) ?acts = []"
    by (simp add: filter_empty_conv)
  have "\<forall>i\<in>set (map action_id (filter (\<lambda>a. action_type a = DELETE) ?acts)). i = None"
    by auto
  then have "delete_many (map action_id (filter (\<lambda>a. action_type a = DELETE) ?acts)) db = db"
    by (rule delete_many_no_ids)
  with c show ?thesis by (simp add: bulk_action_def Let_def)
qed

lemma invalidate_loop_keeps_table:
  "invalidate_loop enabled backend schedule graph_id by_file g db file_names = Some (g', db', err)
   \<Longrightarrow> db' = db"
proof (induction file_names arbitrary: g)
  case Nil
  then show ?case by simp
next
  case (Cons fname file_names)
  obtain g1 e1 where r: "remove_nodes g (by_file fname) = (g1, e1)" by (cases "remove_nodes g (by_file fname)")
  show ?case
  proof (cases e1)
    case (Some e)
    with Cons.prems r show ?thesis by (simp add: Let_def)
  next
    case None
    with Cons.prems r have "invalidate_loop enabled backend schedule graph_id by_file g1 db file_names
        = Some (g', db', err)"
      by (simp add: Let_def bulk_action_deletes_only)
    then show ?thesis by (rule Cons.IH)
  qed
qed

lemma invalidate_keeps_table:
  "invalidate enabled backend schedule graph_id g db file_names = Some (g', db', err) \<Longrightarrow> db' = db"
  unfolding invalidate_def by (rule invalidate_loop_keeps_table)

lemma remove_nodes_indices:
  "\<forall>i\<in>set ids. \<exists>k. i = Some (int k) \<Longrightarrow>
   \<exists>g'. remove_nodes g ids = (g', None) \<and>
        graph_nodes g' = filter (\<lambda>(j, n). Some (int j) \<notin> set ids) (graph_nodes g)"
proof (induction ids arbitrary: g)
  case Nil
  then show ?case by simp
next
  case (Cons i ids)
  from Cons.prems obtain k where i: "i = Some (int k)" by auto
  from Cons.prems have rest: "\<forall>i\<in>set ids. \<exists>k. i = Some (int k)" by simp
  from Cons.IH[OF rest, of "remove_node g k"] obtain g' where
    r: "remove_nodes (remove_node g k) ids = (g', None)" and
    n: "graph_nodes g' = filter (\<lambda>(j, n). Some (int j) \<notin> set ids) (graph_nodes (remove_node g k))"
    by blast
  have "graph_nodes g' = filter (\<lambda>(j, n). Some (int j) \<notin> set (i # ids)) (graph_nodes g)"
    unfolding n by (auto simp: remove_node_def i intro!: filter_cong)
  with r i show ?case by simp
qed

lemma invalidate_removes_nodes:
  assumes ids: "\<forall>(i, n)\<in>set (graph_nodes g). kg_id n = Some (int i)"
    and run: "invalidate enabled backend schedule graph_id g db [f] = Some (g', db', err)"
  shows "err = None \<and> (\<forall>(i, n)\<in>set (graph_nodes g'). file_name n \<noteq> f)"
proof -
  have all: "\<forall>i\<in>set (ids_by_file g f). \<exists>k. i = Some (int k)"
    using ids by (fastforce simp: ids_by_file_def)
  from remove_nodes_indices[OF all, of g] obtain g1 where
    r: "remove_nodes g (ids_by_file g f) = (g1, None)" and
    n: "graph_nodes g1 = filter (\<lambda>(j, n). Some (int j) \<notin> set (ids_by_file g f)) (graph_nodes g)"
    by blast
  from run r have e: "err = None" and g': "g' = g1"
    by (simp_all add: invalidate_def Let_def bulk_action_deletes_only)
  have "file_name n \<noteq> f" if "(i, n) \<in> set (graph_nodes g1)" for i n
  proof
    assume f: "file_name n = f"
    from that n have mem: "(i, n) \<in> set (graph_nodes g)"
      and out: "Some (int i) \<notin> set (ids_by_file g f)" by auto
    from mem ids have "kg_id n = Some (int i)" by auto
    with mem f have "Some (int i) \<in> set (ids_by_file g f)"
      by (force simp: ids_by_file_def)
    with out show False by simp
  qed
  with e g' show ?thesis by auto
qed

text \<open>
  Claim C1: after \<^verbatim>\<open>invalidate({f})\<close> no graph node and no index row references \<open>f\<close>.
  The graph part holds; the index part does not. The delete actions carry \<open>node_id\<close>,
  but \<open>bulk_action\<close> passes \<^verbatim>\<open>x.id\<close>, which is \<open>None\<close> for each of them, to \<open>delete_many\<close>:
  no row is deleted (lemma \<open>invalidate_keeps_table\<close>; lemma \<open>invalidate_removes_nodes\<close>
  is the graph part). Evaluated on a graph with one
  node of \<^verbatim>\<open>a.py\<close> and its row: the node is removed, the row stays.
\<close>

theorem invalidate_leaves_row:
  "invalidate False (\<lambda>a it ts. (OtherFailure :: unit backend_reply)) [] ''1''
     \<lparr>graph_nodes =
        [(0, \<lparr>kg_type = FILE, symbol = ''a'', file_name = ''a.py'', line = 0, end_line = None,
              db_id = None, kg_id = Some 0\<rparr>)],
      graph_edges = []\<rparr>
     \<lparr>table_rows =
        [\<lparr>code_id = Some 1, code_file = Some ''a.py'', code_text = Some '''',
          code_node_id = Some 0, code_graph_id = ''1'', code_embedding = None\<rparr>],
      next_serial = 2\<rparr>
     [''a.py'']
   = Some (\<lparr>graph_nodes = [], graph_edges = []\<rparr>,
           \<lparr>table_rows =
              [\<lparr>code_id = Some 1, code_file = Some ''a.py'', code_text = Some '''',
                code_node_id = Some 0, code_graph_id = ''1'', code_embedding = None\<rparr>],
            next_serial = 2\<rparr>,
           None)"
  by (simp add: invalidate_def ids_by_file_def remove_node_def bulk_action_deletes_only Let_def)

lemma fill_out_length:
  "fill_out idxs js es = Inr out \<Longrightarrow> length out = length js"
  by (induction js arbitrary: es out) (auto split: if_splits list.splits sum.splits)

lemma embed_attempts_length:
  "snd (embed_attempts backend input_type batch retries) = Inr out \<Longrightarrow> length out = length batch"
proof (induction retries)
  case Nil
  then show ?case by simp
next
  case (Cons retry retries)
  then show ?case
    by (auto simp: Let_def split: backend_reply.splits prod.splits dest: fill_out_length)
qed

lemma embed_one_length:
  "snd (embed_one backend input_type batch) = Inr out \<Longrightarrow> length out = length batch"
proof (cases "nonempty_idxs batch = []")
  case True
  then show "snd (embed_one backend input_type batch) = Inr out \<Longrightarrow> length out = length batch"
    by (auto simp: embed_one_def)
next
  case False
  assume "snd (embed_one backend input_type batch) = Inr out"
  with False have "snd (embed_attempts backend input_type batch [1, 2, 3]) = Inr out"
    by (simp only: embed_one_def if_False)
  then show "length out = length batch" by (rule embed_attempts_length)
qed

lemma stream_of_length:
  "list_all2 (\<lambda>r b. \<forall>out. r = Inr out \<longrightarrow> length out = length b) rs bs \<Longrightarrow>
   length (concat (fst (stream_of rs))) \<le> length (concat bs)"
proof (induction rs arbitrary: bs)
  case Nil
  then show ?case by simp
next
  case (Cons r rs)
  from Cons.prems obtain b bs' where bs: "bs = b # bs'" and
    h: "\<forall>out. r = Inr out \<longrightarrow> length out = length b" and
    t: "list_all2 (\<lambda>r b. \<forall>out. r = Inr out \<longrightarrow> length out = length b) rs bs'"
    by (auto simp: list_all2_Cons1)
  show ?case
  proof (cases r)
    case (Inl e)
    then show ?thesis by simp
  next
    case (Inr out)
    with h have "length out = length b" by simp
    with Cons.IH[OF t] Inr bs show ?thesis by (cases "stream_of rs") simp
  qed
qed

lemma embed_yields_at_most:
  assumes "embed enabled backend schedule texts input_type = Some (sent, (items, err))"
  shows "length items \<le> length texts"
proof (cases enabled)
  case False
  with assms show ?thesis by (auto simp: embed_def)
next
  case True
  let ?batches = "embed_batches texts"
  let ?rs = "map snd (map (embed_one backend input_type) ?batches)"
  from assms True obtain outs where
    g: "ordered_as_completed schedule ?rs = Some (outs, err)" and items: "items = concat outs"
    by (auto simp: embed_def Let_def split: option.splits)
  from g have "(outs, err) = stream_of (map snd (zip [0..<length ?rs] ?rs))"
    unfolding ordered_as_completed_def by (rule gather_loop_sound)
  then have outs: "outs = fst (stream_of ?rs)" by (metis fst_conv length_upt map_snd_zip minus_nat.diff_0)
  have "list_all2 (\<lambda>r b. \<forall>out. r = Inr out \<longrightarrow> length out = length b) ?rs ?batches"
    by (simp add: list_all2_map1 list_all2_same embed_one_length)
  from stream_of_length[OF this] have "length (concat outs) \<le> length (concat ?batches)"
    by (simp add: outs)
  then show ?thesis by (simp add: items concat_embed_batches)
qed

lemma chunk_loop_total:
  "chunk_loop chunk_size buffer items = (chunks, left) \<Longrightarrow>
   length (concat chunks) + length left = length buffer + length items"
proof (induction items arbitrary: buffer chunks left)
  case Nil
  then show ?case by simp
next
  case (Cons item items)
  show ?case
  proof (cases "length (buffer @ [item]) = chunk_size")
    case True
    obtain cs l where r: "chunk_loop chunk_size [] items = (cs, l)"
      by (cases "chunk_loop chunk_size [] items")
    from Cons.IH[OF r] Cons.prems True r show ?thesis by (auto simp: Let_def)
  next
    case False
    with Cons.prems have "chunk_loop chunk_size (buffer @ [item]) items = (chunks, left)"
      by (simp add: Let_def)
    from Cons.IH[OF this] show ?thesis by simp
  qed
qed

lemma async_chunk_total:
  "length (concat (fst (async_chunk iterator chunk_size))) \<le> length (fst iterator)"
proof -
  obtain chunks left where r: "chunk_loop chunk_size [] (fst iterator) = (chunks, left)"
    by (cases "chunk_loop chunk_size [] (fst iterator)")
  from chunk_loop_total[OF r] r show ?thesis
    by (auto simp: async_chunk_def split: option.splits)
qed

lemma insert_chunks_progress:
  "0 < length creates \<Longrightarrow> i + length (concat chunks) \<le> length creates \<Longrightarrow>
   sorted (snd (insert_chunks graph_id creates chunks i db)) \<and>
   (\<forall>p\<in>set (snd (insert_chunks graph_id creates chunks i db)).
       real i / real (length creates) \<le> p \<and> p \<le> 1)"
proof (induction chunks arbitrary: i db)
  case Nil
  then show ?case by simp
next
  case (Cons c chunks)
  let ?n = "length creates"
  let ?i' = "i + length c"
  let ?db' = "insert_many (map (\<lambda>(item, emb).
                    \<lparr>code_id = None, code_file = action_file item, code_text = action_content item,
                     code_node_id = action_node_id item, code_graph_id = graph_id,
                     code_embedding = emb\<rparr>)
                  (zip (take (length c) (drop i creates)) c)) db"
  let ?rest = "snd (insert_chunks graph_id creates chunks ?i' ?db')"
  have le: "?i' + length (concat chunks) \<le> ?n" using Cons.prems(2) by simp
  from Cons.IH[OF Cons.prems(1) le, of ?db'] have
    s: "sorted ?rest" and b: "\<forall>p\<in>set ?rest. real ?i' / real ?n \<le> p \<and> p \<le> 1"
    by auto
  have eq: "snd (insert_chunks graph_id creates (c # chunks) i db) = (real ?i' / real ?n) # ?rest"
    by (simp add: Let_def split: prod.splits)
  have h1: "real ?i' / real ?n \<le> 1" using le Cons.prems(1) by simp
  have h0: "real i / real ?n \<le> real ?i' / real ?n"
    using Cons.prems(1) by (simp add: divide_right_mono)
  show ?case unfolding eq using s b h0 h1 by auto
qed

lemma bulk_action_progress:
  assumes "bulk_action enabled backend schedule graph_id all_actions db = Some (db', values, err)"
  shows "sorted values \<and> (\<forall>p\<in>set values. 0 \<le> p \<and> p \<le> 1)"
proof -
  let ?creates = "filter (\<lambda>a. action_type a = CREATE) all_actions"
  show ?thesis
  proof (cases "?creates \<noteq> [] \<and> None \<notin> set (map action_content ?creates)")
    case False
    with assms show ?thesis by (auto simp: bulk_action_def Let_def split: if_splits)
  next
    case True
    let ?texts = "map (\<lambda>a. the (action_content a)) ?creates"
    from assms True obtain sent items e where
      em: "embed enabled backend schedule ?texts ''RETRIEVAL_DOCUMENT'' = Some (sent, (items, e))"
      by (auto simp: bulk_action_def Let_def split: option.splits)
    obtain chunks e' where ac: "async_chunk (items, e) 100 = (chunks, e')"
      by (cases "async_chunk (items, e) 100")
    obtain db1 progress where ic: "insert_chunks graph_id ?creates chunks 0 db = (db1, progress)"
      by (cases "insert_chunks graph_id ?creates chunks 0 db")
    from assms True em ac ic have v: "values = progress"
      by (auto simp: bulk_action_def Let_def split: option.splits)
    have "length (concat chunks) \<le> length items"
      using async_chunk_total[of "(items, e)" 100] ac by simp
    also have "\<dots> \<le> length ?creates" using embed_yields_at_most[OF em] by simp
    finally have le: "0 + length (concat chunks) \<le> length ?creates" by simp
    from True have pos: "0 < length ?creates" by simp
    from insert_chunks_progress[OF pos le, of graph_id db] ic v show ?thesis by auto
  qed
qed

text \<open>
  Claim C9: every progress value of a streamed ingest event lies in \<open>[0, 1]\<close>. The values
  the callback reports are \<open>i / total\<close>, within \<open>[0, 1]\<close> and non-decreasing (lemma
  \<open>bulk_action_progress\<close>); the \<open>COMPLETED\<close> event is built with
  \<^verbatim>\<open>progress=100.0\<close>. Evaluated on the ingest of one file of one line, with embeddings
  disabled: the stream is an \<open>IN_PROGRESS\<close> event with progress 1 followed by the
  \<open>COMPLETED\<close> event with progress 100.
\<close>

theorem api_codegraph_completed_progress:
  "api_codegraph_events False (\<lambda>a it ts. (OtherFailure :: unit backend_reply)) []
     (\<lambda>g. length (graph_nodes g)) ''1''
     \<lparr>graph_nodes = [], graph_edges = []\<rparr> \<lparr>table_rows = [], next_serial = 1\<rparr>
     [\<lparr>kg_type = FILE, symbol = ''a'', file_name = ''a.py'', line = 0, end_line = Some 1,
       db_id = None, kg_id = None\<rparr>]
     [''# a.py'' @ [CHR 0x0A] @ ''x = 1'']
   = Some [\<lparr>step = BUILD_GRAPH, status = IN_PROGRESS, progress = Some 1\<rparr>,
           \<lparr>step = BUILD_GRAPH, status = COMPLETED, progress = Some 100\<rparr>]"
  by (simp add: api_codegraph_events_def bulk_insert_def add_node_def bulk_action_def
        embed_def async_chunk_def insert_many_def delete_many_def Let_def)

subsection \<open>Persistence\<close>

lemma KGNodeType_of_name_name: "KGNodeType_of_name (KGNodeType_name t) = Inr t"
  by (cases t) (simp_all add: KGNodeType_of_name_def)

lemma int_or_None_str_optional: "int_or_None (str_optional x) = Inr x"
  by (cases x) (simp_all add: int_or_None_def str_optional_def py_int_py_str py_str_not_None and_then_def)

lemma from_str_dict_str_dict: "from_str_dict (str_dict n) = Inr n"
proof -
  have e: "(if dict_get (str_dict n) ''end_line'' ''None'' \<noteq> ''None''
               then and_then (and_then (dict_item (str_dict n) ''end_line'') py_int) (\<lambda>i. Inr (Some i))
               else Inr None) = Inr (end_line n)"
    by (cases "end_line n")
       (simp_all add: str_dict_def dict_get_def dict_item_def str_optional_def py_int_py_str
          py_str_not_None and_then_def)
  have t: "and_then (dict_item (str_dict n) ''type'') KGNodeType_of_name = Inr (kg_type n)"
    by (simp add: str_dict_def dict_item_def and_then_def KGNodeType_of_name_name)
  have s: "dict_item (str_dict n) ''symbol'' = Inr (symbol n)"
    by (simp add: str_dict_def dict_item_def)
  have f: "dict_item (str_dict n) ''file_name'' = Inr (file_name n)"
    by (simp add: str_dict_def dict_item_def)
  have l: "(case map_of (str_dict n) ''line'' of None \<Rightarrow> Inr 0 | Some s \<Rightarrow> py_int s) = Inr (line n)"
    by (simp add: str_dict_def py_int_py_str)
  have d: "and_then (dict_item (str_dict n) ''db_id'') int_or_None = Inr (db_id n)"
    by (simp add: str_dict_def dict_item_def and_then_def int_or_None_str_optional)
  have i: "and_then (dict_item (str_dict n) ''id'') int_or_None = Inr (kg_id n)"
    by (simp add: str_dict_def dict_item_def and_then_def int_or_None_str_optional)
  show ?thesis
    unfolding from_str_dict_def t s f l e d i by (simp add: and_then_def)
qed

lemma edge_attrs_in_out:
  "edge_attrs_in (edge_attrs_out e) =
     Inr \<lparr>edge_type = edge_type e, reverse = Some (case reverse e of None \<Rightarrow> False | Some b \<Rightarrow> b),
          src_file = None, target_file = None, idx = None\<rparr>"
  by (simp add: edge_attrs_in_def edge_attrs_out_def dict_item_def and_then_def)

lemma parse_nodes_encoded:
  "distinct (map fst nodes) \<Longrightarrow>
   \<exists>m. parse_nodes (map (\<lambda>(i, n). (i, str_dict n)) nodes) payloads id_mapping =
          Inr (payloads @ map snd nodes, m) \<and>
       (\<forall>k<length nodes. m (fst (nodes ! k)) = Some (length payloads + k)) \<and>
       (\<forall>j. j \<notin> set (map fst nodes) \<longrightarrow> m j = id_mapping j)"
proof (induction nodes arbitrary: payloads id_mapping)
  case Nil
  then show ?case by simp
next
  case (Cons a nodes)
  obtain i n where a: "a = (i, n)" by (cases a)
  from Cons.prems a have dist: "distinct (map fst nodes)" and notin: "i \<notin> set (map fst nodes)"
    by auto
  from Cons.IH[OF dist, of "payloads @ [n]" "id_mapping(i \<mapsto> length payloads)"]
  obtain m where
    p: "parse_nodes (map (\<lambda>(i, n). (i, str_dict n)) nodes) (payloads @ [n])
          (id_mapping(i \<mapsto> length payloads)) = Inr ((payloads @ [n]) @ map snd nodes, m)" and
    ks: "\<forall>k<length nodes. m (fst (nodes ! k)) = Some (length (payloads @ [n]) + k)" and
    other: "\<forall>j. j \<notin> set (map fst nodes) \<longrightarrow> m j = (id_mapping(i \<mapsto> length payloads)) j"
    by blast
  have 1: "parse_nodes (map (\<lambda>(i, n). (i, str_dict n)) (a # nodes)) payloads id_mapping =
          Inr (payloads @ map snd (a # nodes), m)"
    using p a by (simp add: from_str_dict_str_dict)
  have 2: "\<forall>k<length (a # nodes). m (fst ((a # nodes) ! k)) = Some (length payloads + k)"
  proof (intro allI impI)
    fix k assume k: "k < length (a # nodes)"
    show "m (fst ((a # nodes) ! k)) = Some (length payloads + k)"
    proof (cases k)
      case 0
      with other notin a show ?thesis by simp
    next
      case (Suc k')
      with k ks show ?thesis by simp
    qed
  qed
  have 3: "\<forall>j. j \<notin> set (map fst (a # nodes)) \<longrightarrow> m j = id_mapping j"
    using other a by auto
  from 1 2 3 show ?case by blast
qed

lemma parse_links_encoded:
  "\<forall>(s, t, e)\<in>set edges. id_mapping s \<noteq> None \<and> id_mapping t \<noteq> None \<Longrightarrow>
   parse_links id_mapping (map (\<lambda>(s, t, e). (s, t, edge_attrs_out e)) edges) =
     Inr (map (\<lambda>(s, t, e).
            (the (id_mapping s), the (id_mapping t),
             \<lparr>edge_type = edge_type e,
              reverse = Some (case reverse e of None \<Rightarrow> False | Some b \<Rightarrow> b),
              src_file = None, target_file = None, idx = None\<rparr>)) edges)"
proof (induction edges)
  case Nil
  then show ?case by simp
next
  case (Cons a edges)
  obtain s t e where a: "a = (s, t, e)" by (cases a)
  from Cons.prems a obtain s' t' where m: "id_mapping s = Some s'" "id_mapping t = Some t'"
    by auto
  from Cons.prems have "\<forall>(s, t, e)\<in>set edges. id_mapping s \<noteq> None \<and> id_mapping t \<noteq> None"
    by simp
  from Cons.IH[OF this] a m show ?case
    by (simp add: edge_attrs_in_out and_then_def)
qed

lemma restore_edge_files_result:
  "\<forall>(s, t, e)\<in>set edges. map_of (graph_nodes G) s \<noteq> None \<and> map_of (graph_nodes G) t \<noteq> None \<Longrightarrow>
   \<exists>edges'. restore_edge_files G k edges = Inr edges' \<and>
     list_all2 (\<lambda>(s, t, e) (s', t', e').
         s' = s \<and> t' = t \<and> edge_type e' = edge_type e \<and> reverse e' = reverse e \<and>
         src_file e' = map_option file_name (map_of (graph_nodes G) s) \<and>
         target_file e' = map_option file_name (map_of (graph_nodes G) t))
       edges edges'"
proof (induction edges arbitrary: k)
  case Nil
  then show ?case by simp
next
  case (Cons a edges)
  obtain s t e where a: "a = (s, t, e)" by (cases a)
  from Cons.prems a obtain ns nt where
    n: "map_of (graph_nodes G) s = Some ns" "map_of (graph_nodes G) t = Some nt"
    by auto
  from Cons.prems have "\<forall>(s, t, e)\<in>set edges.
      map_of (graph_nodes G) s \<noteq> None \<and> map_of (graph_nodes G) t \<noteq> None"
    by simp
  from Cons.IH[OF this, of "Suc k"] obtain edges' where
    r: "restore_edge_files G (Suc k) edges = Inr edges'" and
    l: "list_all2 (\<lambda>(s, t, e) (s', t', e').
         s' = s \<and> t' = t \<and> edge_type e' = edge_type e \<and> reverse e' = reverse e \<and>
         src_file e' = map_option file_name (map_of (graph_nodes G) s) \<and>
         target_file e' = map_option file_name (map_of (graph_nodes G) t))
       edges edges'"
    by blast
  have "restore_edge_files G k (a # edges) =
      Inr ((s, t, e\<lparr>idx := Some k, src_file := Some (file_name ns),
                   target_file := Some (file_name nt)\<rparr>) # edges')"
    using a n r by (simp add: get_node_data_def and_then_def)
  with l a n show ?case by simp
qed

lemma reindexed_lookup:
  assumes d: "distinct (map fst nodes)"
    and m: "\<forall>k<length nodes. m (fst (nodes ! k)) = Some k"
    and s: "s \<in> fst ` set nodes"
  shows "\<exists>k n. m s = Some k \<and> map_of nodes s = Some n \<and>
           map_of (zip [0..<length nodes] (map snd nodes)) k = Some n"
proof -
  from s obtain k where k: "k < length nodes" "fst (nodes ! k) = s"
    by (auto simp: in_set_conv_nth)
  have "(s, snd (nodes ! k)) \<in> set nodes"
    using k by (metis nth_mem prod.collapse)
  with d have a: "map_of nodes s = Some (snd (nodes ! k))" by (rule map_of_is_SomeI)
  have "map_of (zip [0..<length nodes] (map snd nodes)) ([0..<length nodes] ! k)
          = Some (map snd nodes ! k)"
    by (rule map_of_zip_nth) (use k in auto)
  with k have b: "map_of (zip [0..<length nodes] (map snd nodes)) k = Some (snd (nodes ! k))"
    by simp
  from m k a b show ?thesis by auto
qed

text \<open>
  Claim C2. Saving a graph and loading it back gives a graph with the same node payloads
  in the same order (every field of each node, so its id, symbol, line and end\_line,
  an end\_line of \<open>None\<close> included) and, edge by edge, the same endpoint nodes, the same
  type and the same reverse flag (a missing flag reads as false); every loaded edge
  carries \<open>src_file\<close> and \<open>target_file\<close> equal to the \<open>file_name\<close> of its source and target
  node. The graph is one of the graph library: node indices are distinct and every edge
  joins nodes of the graph. Endpoints are compared as nodes, since the reader numbers
  the nodes anew.
\<close>

theorem save_load_round_trip:
  assumes dist: "distinct (map fst (graph_nodes g))"
    and ends: "\<forall>(s, t, e)\<in>set (graph_edges g).
                 s \<in> fst ` set (graph_nodes g) \<and> t \<in> fst ` set (graph_nodes g)"
  shows "\<exists>g'. load path (save g path fs) = Inr g' \<and>
           map snd (graph_nodes g') = map snd (graph_nodes g) \<and>
           list_all2 (\<lambda>(s, t, e) (s', t', e').
                map_of (graph_nodes g') s' = map_of (graph_nodes g) s \<and>
                map_of (graph_nodes g') t' = map_of (graph_nodes g) t \<and>
                edge_type e' = edge_type e \<and>
                reverse e' = Some (case reverse e of None \<Rightarrow> False | Some b \<Rightarrow> b) \<and>
                src_file e' = map_option file_name (map_of (graph_nodes g) s) \<and>
                src_file e' \<noteq> None \<and>
                target_file e' = map_option file_name (map_of (graph_nodes g) t) \<and>
                target_file e' \<noteq> None)
             (graph_edges g) (graph_edges g')"
proof -
  let ?nodes = "graph_nodes g"
  let ?edges = "graph_edges g"
  let ?n = "length ?nodes"
  let ?loaded = "zip [0..<?n] (map snd ?nodes)"
  let ?dec = "\<lambda>e. \<lparr>edge_type = edge_type e,
              reverse = Some (case reverse e of None \<Rightarrow> False | Some b \<Rightarrow> b),
              src_file = None, target_file = None, idx = None\<rparr>"
  from parse_nodes_encoded[OF dist, of "[]" Map.empty] obtain m where
    pn: "parse_nodes (map (\<lambda>(i, n). (i, str_dict n)) ?nodes) [] Map.empty = Inr (map snd ?nodes, m)"
    and mk: "\<forall>k<?n. m (fst (?nodes ! k)) = Some k"
    by auto
  note look = reindexed_lookup[OF dist mk]
  let ?raw = "map (\<lambda>(s, t, e). (the (m s), the (m t), ?dec e)) ?edges"
  have mapped: "\<forall>(s, t, e)\<in>set ?edges. m s \<noteq> None \<and> m t \<noteq> None"
  proof (clarify, intro conjI)
    fix s t e assume "(s, t, e) \<in> set ?edges"
    with ends have st: "s \<in> fst ` set ?nodes" "t \<in> fst ` set ?nodes" by auto
    from look[OF st(1)] show "m s \<noteq> None" by auto
    from look[OF st(2)] show "m t \<noteq> None" by auto
  qed
  have pl: "parse_links m (map (\<lambda>(s, t, e). (s, t, edge_attrs_out e)) ?edges) = Inr ?raw"
    by (rule parse_links_encoded[OF mapped])
  let ?G = "\<lparr>graph_nodes = ?loaded, graph_edges = ?raw\<rparr>"
  have read: "from_node_link_json_file path (save g path fs) = Inr ?G"
    using pn pl by (simp add: from_node_link_json_file_def save_def node_link_json_def and_then_def)
  define R0 :: "nat \<times> nat \<times> KGEdge \<Rightarrow> nat \<times> nat \<times> KGEdge \<Rightarrow> bool"
    where "R0 = (\<lambda>(s, t, e) (s', t', e').
                map_of ?loaded s' = map_of ?nodes s \<and> map_of ?loaded t' = map_of ?nodes t \<and>
                map_of ?nodes s \<noteq> None \<and> map_of ?nodes t \<noteq> None \<and>
                edge_type e' = edge_type e \<and>
                reverse e' = Some (case reverse e of None \<Rightarrow> False | Some b \<Rightarrow> b))"
  have r0: "R0 x ((\<lambda>(s, t, e). (the (m s), the (m t), ?dec e)) x)" if "x \<in> set ?edges" for x
  proof -
    obtain s t e where x: "x = (s, t, e)" by (cases x)
    with that ends have st: "s \<in> fst ` set ?nodes" "t \<in> fst ` set ?nodes" by auto
    from look[OF st(1)] look[OF st(2)] show ?thesis
      unfolding x R0_def by auto
  qed
  have rel0: "list_all2 R0 ?edges ?raw"
    by (simp add: list_all2_map2 list_all2_same r0)
  have present: "\<forall>(s, t, e)\<in>set ?raw. map_of (graph_nodes ?G) s \<noteq> None \<and>
      map_of (graph_nodes ?G) t \<noteq> None"
  proof (clarify, intro conjI)
    fix s' t' e' assume "(s', t', e') \<in> set ?raw"
    then obtain s t e where in_e: "(s, t, e) \<in> set ?edges" and
      eq: "s' = the (m s)" "t' = the (m t)" by auto
    with ends have st: "s \<in> fst ` set ?nodes" "t \<in> fst ` set ?nodes" by auto
    from look[OF st(1)] obtain k n where "m s = Some k" "map_of ?loaded k = Some n" by blast
    with eq have "map_of ?loaded s' = Some n" by simp
    then show "map_of (graph_nodes ?G) s' \<noteq> None" by simp
    from look[OF st(2)] obtain k' n' where "m t = Some k'" "map_of ?loaded k' = Some n'" by blast
    with eq have "map_of ?loaded t' = Some n'" by simp
    then show "map_of (graph_nodes ?G) t' \<noteq> None" by simp
  qed
  define R1 :: "nat \<times> nat \<times> KGEdge \<Rightarrow> nat \<times> nat \<times> KGEdge \<Rightarrow> bool"
    where "R1 = (\<lambda>(s, t, e) (s', t', e').
         s' = s \<and> t' = t \<and> edge_type e' = edge_type e \<and> reverse e' = reverse e \<and>
         src_file e' = map_option file_name (map_of (graph_nodes ?G) s) \<and>
         target_file e' = map_option file_name (map_of (graph_nodes ?G) t))"
  from restore_edge_files_result[OF present, of 0] obtain edges' where
    re: "restore_edge_files ?G 0 ?raw = Inr edges'" and
    rel1: "list_all2 R1 ?raw edges'"
    unfolding R1_def by blast
  let ?g' = "\<lparr>graph_nodes = ?loaded, graph_edges = edges'\<rparr>"
  define R2 :: "nat \<times> nat \<times> KGEdge \<Rightarrow> nat \<times> nat \<times> KGEdge \<Rightarrow> bool"
    where "R2 = (\<lambda>(s, t, e) (s', t', e').
                map_of (graph_nodes ?g') s' = map_of (graph_nodes g) s \<and>
                map_of (graph_nodes ?g') t' = map_of (graph_nodes g) t \<and>
                edge_type e' = edge_type e \<and>
                reverse e' = Some (case reverse e of None \<Rightarrow> False | Some b \<Rightarrow> b) \<and>
                src_file e' = map_option file_name (map_of (graph_nodes g) s) \<and>
                src_file e' \<noteq> None \<and>
                target_file e' = map_option file_name (map_of (graph_nodes g) t) \<and>
                target_file e' \<noteq> None)"
  have ld: "load path (save g path fs) = Inr ?g'"
    using read re by (simp add: load_def and_then_def)
  have nodes: "map snd (graph_nodes ?g') = map snd ?nodes" by simp
  have step: "R2 a c" if "R0 a b" "R1 b c" for a b c
  proof -
    obtain s t e where a: "a = (s, t, e)" by (cases a)
    obtain s1 t1 e1 where b: "b = (s1, t1, e1)" by (cases b)
    obtain s2 t2 e2 where c: "c = (s2, t2, e2)" by (cases c)
    from that show ?thesis unfolding a b c R0_def R1_def R2_def by auto
  qed
  have "list_all2 R2 ?edges edges'"
    by (rule list_all2_trans[OF step rel0 rel1])
  then have edges: "list_all2 R2 ?edges (graph_edges ?g')" by simp
  from ld nodes edges show ?thesis unfolding R2_def by blast
qed

theorem save_load_round_trip_witness:
  "\<exists>g'. load ''graph.json'' (save 
       \<lparr>graph_nodes =
          [(3, \<lparr>kg_type = FILE, symbol = ''a'', file_name = ''a.py'', line = 0,
                end_line = None, db_id = None, kg_id = Some 3\<rparr>),
           (5, \<lparr>kg_type = FUNCTION, symbol = ''a.f'', file_name = ''a.py'', line = 2,
                end_line = Some 12, db_id = None, kg_id = Some 5\<rparr>)],
        graph_edges =
          [(5, 3, \<lparr>edge_type = ''function_def'', reverse = None, src_file = None,
                   target_file = None, idx = None\<rparr>),
           (3, 5, \<lparr>edge_type = ''function_def'', reverse = Some True, src_file = None,
                   target_file = None, idx = None\<rparr>)]\<rparr> ''graph.json'' Map.empty) = Inr g' \<and>
           map snd (graph_nodes g') = map snd (graph_nodes 
       \<lparr>graph_nodes =
          [(3, \<lparr>kg_type = FILE, symbol = ''a'', file_name = ''a.py'', line = 0,
                end_line = None, db_id = None, kg_id = Some 3\<rparr>),
           (5, \<lparr>kg_type = FUNCTION, symbol = ''a.f'', file_name = ''a.py'', line = 2,
                end_line = Some 12, db_id = None, kg_id = Some 5\<rparr>)],
        graph_edges =
          [(5, 3, \<lparr>edge_type = ''function_def'', reverse = None, src_file = None,
                   target_file = None, idx = None\<rparr>),
           (3, 5, \<lparr>edge_type = ''function_def'', reverse = Some True, src_file = None,
                   target_file = None, idx = None\<rparr>)]\<rparr>) \<and>
           list_all2 (\<lambda>(s, t, e) (s', t', e').
                map_of (graph_nodes g') s' = map_of (graph_nodes 
       \<lparr>graph_nodes =
          [(3, \<lparr>kg_type = FILE, symbol = ''a'', file_name = ''a.py'', line = 0,
                end_line = None, db_id = None, kg_id = Some 3\<rparr>),
           (5, \<lparr>kg_type = FUNCTION, symbol = ''a.f'', file_name = ''a.py'', line = 2,
                end_line = Some 12, db_id = None, kg_id = Some 5\<rparr>)],
        graph_edges =
          [(5, 3, \<lparr>edge_type = ''function_def'', reverse = None, src_file = None,
                   target_file = None, idx = None\<rparr>),
           (3, 5, \<lparr>edge_type = ''function_def'', reverse = Some True, src_file = None,
                   target_file = None, idx = None\<rparr>)]\<rparr>) s \<and>
                map_of (graph_nodes g') t' = map_of (graph_nodes 
       \<lparr>graph_nodes =
          [(3, \<lparr>kg_type = FILE, symbol = ''a'', file_name = ''a.py'', line = 0,
                end_line = None, db_id = None, kg_id = Some 3\<rparr>),
           (5, \<lparr>kg_type = FUNCTION, symbol = ''a.f'', file_name = ''a.py'', line = 2,
                end_line = Some 12, db_id = None, kg_id = Some 5\<rparr>)],
        graph_edges =
          [(5, 3, \<lparr>edge_type = ''function_def'', reverse = None, src_file = None,
                   target_file = None, idx = None\<rparr>),
           (3, 5, \<lparr>edge_type = ''function_def'', reverse = Some True, src_file = None,
                   target_file = None, idx = None\<rparr>)]\<rparr>) t \<and>
                edge_type e' = edge_type e \<and>
                reverse e' = Some (case reverse e of None \<Rightarrow> False | Some b \<Rightarrow> b) \<and>
                src_file e' = map_option file_name (map_of (graph_nodes 
       \<lparr>graph_nodes =
          [(3, \<lparr>kg_type = FILE, symbol = ''a'', file_name = ''a.py'', line = 0,
                end_line = None, db_id = None, kg_id = Some 3\<rparr>),
           (5, \<lparr>kg_type = FUNCTION, symbol = ''a.f'', file_name = ''a.py'', line = 2,
                end_line = Some 12, db_id = None, kg_id = Some 5\<rparr>)],
        graph_edges =
          [(5, 3, \<lparr>edge_type = ''function_def'', reverse = None, src_file = None,
                   target_file = None, idx = None\<rparr>),
           (3, 5, \<lparr>edge_type = ''function_def'', reverse = Some True, src_file = None,
                   target_file = None, idx = None\<rparr>)]\<rparr>) s) \<and>
                src_file e' \<noteq> None \<and>
                target_file e' = map_option file_name (map_of (graph_nodes 
       \<lparr>graph_nodes =
          [(3, \<lparr>kg_type = FILE, symbol = ''a'', file_name = ''a.py'', line = 0,
                end_line = None, db_id = None, kg_id = Some 3\<rparr>),
           (5, \<lparr>kg_type = FUNCTION, symbol = ''a.f'', file_name = ''a.py'', line = 2,
                end_line = Some 12, db_id = None, kg_id = Some 5\<rparr>)],
        graph_edges =
          [(5, 3, \<lparr>edge_type = ''function_def'', reverse = None, src_file = None,
                   target_file = None, idx = None\<rparr>),
           (3, 5, \<lparr>edge_type = ''function_def'', reverse = Some True, src_file = None,
                   target_file = None, idx = None\<rparr>)]\<rparr>) t) \<and>
                target_file e' \<noteq> None)
             (graph_edges 
       \<lparr>graph_nodes =
          [(3, \<lparr>kg_type = FILE, symbol = ''a'', file_name = ''a.py'', line = 0,
                end_line = None, db_id = None, kg_id = Some 3\<rparr>),
           (5, \<lparr>kg_type = FUNCTION, symbol = ''a.f'', file_name = ''a.py'', line = 2,
                end_line = Some 12, db_id = None, kg_id = Some 5\<rparr>)],
        graph_edges =
          [(5, 3, \<lparr>edge_type = ''function_def'', reverse = None, src_file = None,
                   target_file = None, idx = None\<rparr>),
           (3, 5, \<lparr>edge_type = ''function_def'', reverse = Some True, src_file = None,
                   target_file = None, idx = None\<rparr>)]\<rparr>) (graph_edges g')"
proof -
  let ?G = "\<lparr>graph_nodes =
          [(3, \<lparr>kg_type = FILE, symbol = ''a'', file_name = ''a.py'', line = 0,
                end_line = None, db_id = None, kg_id = Some 3\<rparr>),
           (5, \<lparr>kg_type = FUNCTION, symbol = ''a.f'', file_name = ''a.py'', line = 2,
                end_line = Some 12, db_id = None, kg_id = Some 5\<rparr>)],
        graph_edges =
          [(5, 3, \<lparr>edge_type = ''function_def'', reverse = None, src_file = None,
                   target_file = None, idx = None\<rparr>),
           (3, 5, \<lparr>edge_type = ''function_def'', reverse = Some True, src_file = None,
                   target_file = None, idx = None\<rparr>)]\<rparr>"
  have d: "distinct (map fst (graph_nodes ?G))" by simp
  have e: "\<forall>(s, t, e)\<in>set (graph_edges ?G).
             s \<in> fst ` set (graph_nodes ?G) \<and> t \<in> fst ` set (graph_nodes ?G)" by simp
  show ?thesis by (rule save_load_round_trip[OF d e])
qed

subsection \<open>Indexer nodes and contents\<close>

lemma name_or_unknown_keeps:
  "name_or_unknown name st = (nm, st1) \<Longrightarrow>
   ps_nodes st1 = ps_nodes st \<and> ps_contents st1 = ps_contents st \<and> ps_edges st1 = ps_edges st"
  by (auto simp: name_or_unknown_def split: option.splits if_splits)

lemma recurse_scope_emits:
  "\<exists>N C. ps_nodes (recurse_scope fname file_lines parent_node scopes st) = ps_nodes st @ N \<and>
         ps_contents (recurse_scope fname file_lines parent_node scopes st) = ps_contents st @ C \<and>
         map line N = map (\<lambda>s. sc_start_line s - 1) (emitting scopes) \<and>
         list_all2 (\<lambda>n c. kg_type n \<noteq> FILE \<and> c = node_content fname file_lines n) N C"
proof (induction scopes arbitrary: parent_node st rule: measure_induct_rule[where f = "size_list size"])
  case (less scopes)
  show ?case
  proof (cases scopes)
    case Nil
    then show ?thesis by simp
  next
    case (Cons s rest)
    obtain ty name sline scol eline ecol children where s: "s = Scope ty name sline scol eline ecol children"
      by (cases s)
    have small_children: "size_list size children < size_list size scopes"
      using Cons s by simp
    have small_rest: "size_list size rest < size_list size scopes"
      using Cons by simp
    show ?thesis
    proof (cases "ty = ''CLASS'' \<or> ty = ''FUNCTION''")
      case False
      let ?inner = "recurse_scope fname file_lines parent_node children st"
      from less.IH[OF small_children, of parent_node st] obtain N1 C1 where
        i: "ps_nodes ?inner = ps_nodes st @ N1" "ps_contents ?inner = ps_contents st @ C1"
           "map line N1 = map (\<lambda>s. sc_start_line s - 1) (emitting children)"
           "list_all2 (\<lambda>n c. kg_type n \<noteq> FILE \<and> c = node_content fname file_lines n) N1 C1"
        by blast
      from less.IH[OF small_rest, of parent_node ?inner] obtain N2 C2 where
        o: "ps_nodes (recurse_scope fname file_lines parent_node rest ?inner) = ps_nodes ?inner @ N2"
           "ps_contents (recurse_scope fname file_lines parent_node rest ?inner) = ps_contents ?inner @ C2"
           "map line N2 = map (\<lambda>s. sc_start_line s - 1) (emitting rest)"
           "list_all2 (\<lambda>n c. kg_type n \<noteq> FILE \<and> c = node_content fname file_lines n) N2 C2"
        by blast
      have r: "recurse_scope fname file_lines parent_node scopes st =
               recurse_scope fname file_lines parent_node rest ?inner"
        using False Cons s by simp
      show ?thesis
      proof (intro exI conjI)
        show "ps_nodes (recurse_scope fname file_lines parent_node scopes st) = ps_nodes st @ (N1 @ N2)"
          using r i o by simp
        show "ps_contents (recurse_scope fname file_lines parent_node scopes st) = ps_contents st @ (C1 @ C2)"
          using r i o by simp
        show "map line (N1 @ N2) = map (\<lambda>s. sc_start_line s - 1) (emitting scopes)"
          using i o False Cons s by simp
        show "list_all2 (\<lambda>n c. kg_type n \<noteq> FILE \<and> c = node_content fname file_lines n) (N1 @ N2) (C1 @ C2)"
          using i(4) o(4) by (rule list_all2_appendI)
      qed
    next
      case True
      obtain nm st1 where nu: "name_or_unknown name st = (nm, st1)"
        by (cases "name_or_unknown name st")
      note keep = name_or_unknown_keeps[OF nu]
      let ?end = "if ty = ''CLASS'' then class_end s else scope_end s"
      let ?node = "\<lparr>kg_type = (if ty = ''CLASS'' then CLASS else FUNCTION),
                     symbol = symbol parent_node @ ''.'' @ nm,
                     file_name = fname, line = sline - 1, end_line = Some ?end,
                     db_id = None, kg_id = None\<rparr>"
      let ?content = "''# '' @ fname @ [CHR 0x0A] @ ''# '' @ symbol ?node @ [CHR 0x0A] @
                       py_join [CHR 0x0A] (py_slice file_lines (sline - 1) ?end)"
      let ?st2 = "st1\<lparr>ps_nodes := ps_nodes st1 @ [?node],
                       ps_edges := ps_edges st1 @ [(symbol ?node, symbol parent_node,
                          if ty = ''CLASS'' then ''class_def'' else ''function_def'')],
                       ps_contents := ps_contents st1 @ [?content]\<rparr>"
      let ?inner = "recurse_scope fname file_lines ?node children ?st2"
      from less.IH[OF small_children, of ?node ?st2] obtain N1 C1 where
        i: "ps_nodes ?inner = ps_nodes ?st2 @ N1" "ps_contents ?inner = ps_contents ?st2 @ C1"
           "map line N1 = map (\<lambda>s. sc_start_line s - 1) (emitting children)"
           "list_all2 (\<lambda>n c. kg_type n \<noteq> FILE \<and> c = node_content fname file_lines n) N1 C1"
        by blast
      from less.IH[OF small_rest, of parent_node ?inner] obtain N2 C2 where
        o: "ps_nodes (recurse_scope fname file_lines parent_node rest ?inner) = ps_nodes ?inner @ N2"
           "ps_contents (recurse_scope fname file_lines parent_node rest ?inner) = ps_contents ?inner @ C2"
           "map line N2 = map (\<lambda>s. sc_start_line s - 1) (emitting rest)"
           "list_all2 (\<lambda>n c. kg_type n \<noteq> FILE \<and> c = node_content fname file_lines n) N2 C2"
        by blast
      have r: "recurse_scope fname file_lines parent_node scopes st =
               recurse_scope fname file_lines parent_node rest ?inner"
        using True Cons s nu by (simp add: Let_def)
      have own: "kg_type ?node \<noteq> FILE \<and> ?content = node_content fname file_lines ?node"
        by (simp add: node_content_def)
      show ?thesis
      proof (intro exI conjI)
        show "ps_nodes (recurse_scope fname file_lines parent_node scopes st) =
                ps_nodes st @ (?node # N1 @ N2)"
          using r i o keep by simp
        show "ps_contents (recurse_scope fname file_lines parent_node scopes st) =
                ps_contents st @ (?content # C1 @ C2)"
          using r i o keep by simp
        show "map line (?node # N1 @ N2) = map (\<lambda>s. sc_start_line s - 1) (emitting scopes)"
          using i o True Cons s by simp
        show "list_all2 (\<lambda>n c. kg_type n \<noteq> FILE \<and> c = node_content fname file_lines n)
                (?node # N1 @ N2) (?content # C1 @ C2)"
          using own list_all2_appendI[OF i(4) o(4)] by simp
      qed
    qed
  qed
qed

text \<open>
  Claim C8, as stated: for a Python file the node's \<open>line\<close> is moved up across the
  decorator lines above the definition, and the content starts at that line. The indexer
  does neither. For the file \<^verbatim>\<open>a.py\<close> with the lines \<^verbatim>\<open>@dec\<close>, \<^verbatim>\<open>def foo():\<close> and
  \<^verbatim>\<open>    pass\<close> the parser gives a block scope for the decorated definition holding the
  function scope that starts at the \<^verbatim>\<open>def\<close> line; the function node has \<open>line = 1\<close>,
  where the decorator-expanded line is 0, and its content starts with \<^verbatim>\<open>def foo():\<close>.
\<close>

theorem decorator_line_counterexample:
  "ast_parse_scoped ''a.py'' [''@dec'', ''def foo():'', ''    pass'']
     [Scope ''BLOCK_STATEMENT'' None 1 0 3 8 [Scope ''FUNCTION'' (Some ''foo'') 2 0 3 8 []]]
     \<lparr>ps_nodes = [], ps_contents = [], ps_edges = [], unknown_ctr = 0\<rparr>
   = \<lparr>ps_nodes =
        [\<lparr>kg_type = FILE, symbol = ''a'', file_name = ''a.py'', line = 0, end_line = None,
          db_id = None, kg_id = None\<rparr>,
         \<lparr>kg_type = FUNCTION, symbol = ''a.foo'', file_name = ''a.py'', line = 1,
          end_line = Some 3, db_id = None, kg_id = None\<rparr>],
      ps_contents =
        [[], ''# a.py'' @ [CHR 0x0A] @ ''# a.foo'' @ [CHR 0x0A] @ ''def foo():'' @ [CHR 0x0A] @
             ''    pass''],
      ps_edges = [(''a.foo'', ''a'', ''function_def'')],
      unknown_ctr = 0\<rparr> \<and>
   decorator_start [''@dec'', ''def foo():'', ''    pass''] 1 = 0"
  by (simp add: ast_parse_scoped_def file_symbol_def name_or_unknown_def scope_end_def
        py_slice_def slice_bound_def is_decorator_line_def)

text \<open>
  Claim C8, amended: every class or function node that the indexer emits for a file has as
  \<open>line\<close> the start line of its own scope as the parser reports it (0-indexed); the
  indexer does not move it up across decorator lines. Its content is the two header lines
  \<^verbatim>\<open># <file>\<close> and \<^verbatim>\<open># <symbol>\<close> followed by the source lines from that \<open>line\<close> to the
  node's \<open>end_line\<close>.
\<close>

theorem ast_parse_lines_and_content:
  "\<exists>N C. ps_nodes (ast_parse_scoped fname file_lines children st) =
            ps_nodes st @
            \<lparr>kg_type = FILE, symbol = file_symbol fname, file_name = fname, line = 0,
             end_line = None, db_id = None, kg_id = None\<rparr> # N \<and>
         ps_contents (ast_parse_scoped fname file_lines children st) = ps_contents st @ [] # C \<and>
         map line N = map (\<lambda>s. sc_start_line s - 1) (emitting children) \<and>
         list_all2 (\<lambda>n c. kg_type n \<noteq> FILE \<and> c = node_content fname file_lines n) N C"
proof -
  let ?file_node = "\<lparr>kg_type = FILE, symbol = file_symbol fname, file_name = fname, line = 0,
             end_line = None, db_id = None, kg_id = None\<rparr>"
  let ?st = "st\<lparr>ps_nodes := ps_nodes st @ [?file_node], ps_contents := ps_contents st @ [[]]\<rparr>"
  from recurse_scope_emits[of fname file_lines ?file_node children ?st] obtain N C where
    "ps_nodes (recurse_scope fname file_lines ?file_node children ?st) = ps_nodes ?st @ N"
    "ps_contents (recurse_scope fname file_lines ?file_node children ?st) = ps_contents ?st @ C"
    "map line N = map (\<lambda>s. sc_start_line s - 1) (emitting children)"
    "list_all2 (\<lambda>n c. kg_type n \<noteq> FILE \<and> c = node_content fname file_lines n) N C"
    by blast
  then show ?thesis
    by (intro exI[of _ N] exI[of _ C]) (simp add: ast_parse_scoped_def Let_def)
qed

theorem ast_parse_lines_and_content_witness:
  "\<exists>N C. ps_nodes (ast_parse_scoped ''a.py'' [''@dec'', ''def foo():'', ''    pass'']
            [Scope ''BLOCK_STATEMENT'' None 1 0 3 8 [Scope ''FUNCTION'' (Some ''foo'') 2 0 3 8 []]]
            \<lparr>ps_nodes = [], ps_contents = [], ps_edges = [], unknown_ctr = 0\<rparr>) =
            ps_nodes \<lparr>ps_nodes = [], ps_contents = [], ps_edges = [], unknown_ctr = 0\<rparr> @
            \<lparr>kg_type = FILE, symbol = file_symbol ''a.py'', file_name = ''a.py'', line = 0,
             end_line = None, db_id = None, kg_id = None\<rparr> # N \<and>
         ps_contents (ast_parse_scoped ''a.py'' [''@dec'', ''def foo():'', ''    pass'']
            [Scope ''BLOCK_STATEMENT'' None 1 0 3 8 [Scope ''FUNCTION'' (Some ''foo'') 2 0 3 8 []]]
            \<lparr>ps_nodes = [], ps_contents = [], ps_edges = [], unknown_ctr = 0\<rparr>) = ps_contents \<lparr>ps_nodes = [], ps_contents = [], ps_edges = [], unknown_ctr = 0\<rparr> @ [] # C \<and>
         map line N = map (\<lambda>s. sc_start_line s - 1)
            (emitting [Scope ''BLOCK_STATEMENT'' None 1 0 3 8 [Scope ''FUNCTION'' (Some ''foo'') 2 0 3 8 []]]) \<and>
         list_all2 (\<lambda>n c. kg_type n \<noteq> FILE \<and>
                          c = node_content ''a.py'' [''@dec'', ''def foo():'', ''    pass''] n) N C"
  by (rule ast_parse_lines_and_content)

end
